theory Spec2Isabelle
  imports Complex_Main
begin

section \<open>The camera client and workers of gui/esp32cam.py\<close>

text \<open>
  The module holds three classes: \<open>ParameterSetterThread\<close> (one HTTP request with an
  interruption flag), \<open>ESP32CamClient\<close> (a wrapper of one \<open>cv2.VideoCapture\<close>) and
  \<open>CameraWorker\<close> (the acquisition loop). Each \<open>run\<close> method is embedded as a function
  from what the outside world does during the run to the list of observable events and
  the final object state.

  Conventions of the embedding:
  \<^item> an exception is a value \<open>Exception msg\<close> on the left of a sum; only exceptions derived
    from Python's \<open>Exception\<close> are modelled (the ones \<open>except Exception\<close> catches);
  \<^item> a Python \<open>float\<close> is an IEEE binary64 value: a finite one is the rational it stands
    for, and every subtraction and division rounds to the nearest double, ties to even;
  \<^item> a frame is a pixel buffer that a detector receives by reference: \<open>detect\<close> and
    \<open>annotate\<close> may write into it, and they return or raise;
  \<^item> what other threads and devices do (the consumer's writes to the flags, \<open>stop()\<close>,
    the clock, the capture device, the factories) is an input of each loop iteration.
\<close>

subsection \<open>Values\<close>

datatype exn = Exception string

subsection \<open>Python floats\<close>

text \<open>
  A binary64 value: a finite number (the two zeros are not told apart, no operation below
  depends on the sign of a zero), an infinity or a NaN.
\<close>

datatype pyfloat = Fin rat | PInf | NInf | NaN

text \<open>The number of binary digits of a positive integer.\<close>

function bits :: "int \<Rightarrow> int" where
  "bits n = (if n \<le> 0 then 0 else 1 + bits (n div 2))"
  by pat_completeness auto
termination
  by (relation "measure nat") auto

declare bits.simps [simp del]

definition pow2 :: "int \<Rightarrow> rat" where
  "pow2 k = (if 0 \<le> k then of_int (2 ^ nat k) else 1 / of_int (2 ^ nat (- k)))"

text \<open>For \<open>a > 0\<close>: the exponent \<open>e\<close> with \<open>2^e \<le> a < 2^(e+1)\<close>.\<close>

definition ilog2 :: "rat \<Rightarrow> int" where
  "ilog2 a =
     (case quotient_of a of (p, q) \<Rightarrow>
        let d = bits p - bits q
        in if pow2 d \<le> a then d else d - 1)"

definition round_half_even :: "rat \<Rightarrow> int" where
  "round_half_even z =
     (let n = \<lfloor>z\<rfloor>; r = z - of_int n
      in if r < 1 / 2 then n else if 1 / 2 < r then n + 1 else if even n then n else n + 1)"

text \<open>
  Rounding of an exact result to binary64, to nearest and ties to even: 53 significant
  bits, the quantum no finer than \<open>2^-1074\<close> (gradual underflow), and an infinity when the
  rounded magnitude reaches \<open>2^1024\<close>.
\<close>

definition rnd :: "rat \<Rightarrow> pyfloat" where
  "rnd x =
     (if x = 0 then Fin 0
      else
        let a = \<bar>x\<bar>;
            e = ilog2 a;
            q = max (e - 52) (- 1074);
            n = round_half_even (a / pow2 q)
        in if 1023 < e \<or> (e = 1023 \<and> 2 ^ 53 \<le> n) then (if 0 < x then PInf else NInf)
           else Fin ((if 0 < x then 1 else - 1) * of_int n * pow2 q))"

text \<open>\<open>x - y\<close> on floats.\<close>

fun py_sub :: "pyfloat \<Rightarrow> pyfloat \<Rightarrow> pyfloat" where
  "py_sub (Fin a) (Fin b) = rnd (a - b)"
| "py_sub NaN y = NaN"
| "py_sub x NaN = NaN"
| "py_sub PInf PInf = NaN"
| "py_sub NInf NInf = NaN"
| "py_sub PInf y = PInf"
| "py_sub NInf y = NInf"
| "py_sub x PInf = NInf"
| "py_sub x NInf = PInf"

text \<open>The IEEE quotient, for a divisor that is not zero.\<close>

fun ieee_div :: "pyfloat \<Rightarrow> pyfloat \<Rightarrow> pyfloat" where
  "ieee_div NaN y = NaN"
| "ieee_div x NaN = NaN"
| "ieee_div (Fin a) (Fin b) = rnd (a / b)"
| "ieee_div (Fin a) y = Fin 0"
| "ieee_div PInf (Fin b) = (if 0 < b then PInf else NInf)"
| "ieee_div NInf (Fin b) = (if 0 < b then NInf else PInf)"
| "ieee_div x y = NaN"

text \<open>\<open>x / y\<close> on floats: Python raises \<open>ZeroDivisionError\<close> for a zero divisor.\<close>

definition py_truediv :: "pyfloat \<Rightarrow> pyfloat \<Rightarrow> exn + pyfloat" where
  "py_truediv x y =
     (if y = Fin 0 then Inl (Exception ''float division by zero'') else Inr (ieee_div x y))"

text \<open>Comparisons: every comparison with a NaN is false.\<close>

fun rank :: "pyfloat \<Rightarrow> (int \<times> rat) option" where
  "rank NaN = None"
| "rank NInf = Some (- 1, 0)"
| "rank (Fin a) = Some (0, a)"
| "rank PInf = Some (1, 0)"

definition py_lt :: "pyfloat \<Rightarrow> pyfloat \<Rightarrow> bool" where
  "py_lt x y =
     (case (rank x, rank y) of
        (Some (i, a), Some (j, b)) \<Rightarrow> i < j \<or> (i = j \<and> a < b)
      | _ \<Rightarrow> False)"

definition py_ge :: "pyfloat \<Rightarrow> pyfloat \<Rightarrow> bool" where
  "py_ge x y =
     (case (rank x, rank y) of
        (Some (i, a), Some (j, b)) \<Rightarrow> j < i \<or> (i = j \<and> b \<le> a)
      | _ \<Rightarrow> False)"

text \<open>
  The conversion of an \<open>int\<close> operand of a float division, here the frame counter. (Python
  raises \<open>OverflowError\<close> for an \<open>int\<close> beyond the largest double; a counter that grows by
  one per pass does not get there.)
\<close>

definition py_float :: "nat \<Rightarrow> pyfloat" where
  "py_float n = rnd (of_nat n)"

subsection \<open>Other values\<close>

type_synonym frame = "nat list"

type_synonym box = "int list"

text \<open>A confidence is carried as the text that the format spec \<open>.2f\<close> renders for it.\<close>

type_synonym conf = string

datatype stage = Hazmat | Qr

datatype event =
    Opened bool string
  | Msleep nat
  | ClientRead
  | FactoryCall stage
  | DetectCall stage
  | AnnotateCall stage
  | Print string
  | FpsReady pyfloat
  | HazmatDet "string list"
  | QrDet "string list"
  | FrameReady frame
  | Release

subsection \<open>Decimal rendering of an integer (\<open>int(cid)\<close> inside an f-string)\<close>

fun digits :: "nat \<Rightarrow> string" where
  "digits n =
     (if n < 10 then [char_of (48 + n)]
      else digits (n div 10) @ [char_of (48 + n mod 10)])"

declare digits.simps [simp del]

definition str_int :: "int \<Rightarrow> string" where
  "str_int i = (if i < 0 then CHR ''-'' # digits (nat (- i)) else digits (nat i))"

subsection \<open>ParameterSetterThread\<close>

record parameter_setter =
  host :: string
  params :: "(string \<times> string) list"
  ps_timeout :: real
  interrupted :: bool

text \<open>What \<open>requests.get\<close> does: a response with its status code, or a raise.\<close>

datatype get_result =
    Response int
  | RequestException string
  | OtherException string

text \<open>
  The other thread may call \<open>requestInterruption\<close> before the first check of the flag
  or while \<open>requests.get\<close> blocks.
\<close>

record setter_env =
  interrupt_before :: bool
  interrupt_during :: bool
  get_outcome :: get_result

datatype setter_event =
    Finished bool
  | HttpGet string "(string \<times> string) list" "real \<times> real"
  | SetterPrint string

definition requestInterruption :: "parameter_setter \<Rightarrow> parameter_setter" where
  "requestInterruption t = t\<lparr>interrupted := True\<rparr>"

definition setter_init :: "string \<Rightarrow> (string \<times> string) list \<Rightarrow> real \<Rightarrow> parameter_setter" where
  "setter_init h ps tmo = \<lparr>host = h, params = ps, ps_timeout = tmo, interrupted = False\<rparr>"

definition setter_run :: "setter_env \<Rightarrow> parameter_setter \<Rightarrow> setter_event list \<times> parameter_setter" where
  "setter_run env t0 =
     (if host t0 = [] then ([Finished False], t0)
      else
        let url = ''http://'' @ host t0 @ ''/set'';
            t1 = (if interrupt_before env then requestInterruption t0 else t0)
        in if interrupted t1 then ([Finished False], t1)
           else
             let call = HttpGet url (params t1) (3 / 2, ps_timeout t1);
                 t2 = (if interrupt_during env then requestInterruption t1 else t1)
             in case get_outcome env of
                  RequestException e \<Rightarrow>
                    ([call, SetterPrint (''[esp32cam.set_params] request failed: '' @ e),
                      Finished False], t2)
                | OtherException e \<Rightarrow>
                    ([call, SetterPrint (''[esp32cam.set_params] unexpected: '' @ e),
                      Finished False], t2)
                | Response status_code \<Rightarrow>
                    if interrupted t2 then ([call, Finished False], t2)
                    else ([call, Finished (status_code = 200)], t2))"

definition finished_emits :: "setter_event list \<Rightarrow> bool list" where
  "finished_emits evs = [b. Finished b \<leftarrow> evs]"

definition http_calls :: "setter_event list \<Rightarrow> nat" where
  "http_calls evs = length [u. HttpGet u p tm \<leftarrow> evs]"

subsection \<open>ESP32CamClient\<close>

text \<open>A \<open>cv2.VideoCapture\<close> object; \<open>isOpened\<close> is what its method of that name reports.\<close>

datatype capture = VideoCapture (isOpened: bool)

record client =
  stream_url :: string
  timeout :: real
  cap :: "capture option"

definition client_init :: "string \<Rightarrow> client" where
  "client_init url = \<lparr>stream_url = url, timeout = 3, cap = None\<rparr>"

text \<open>\<open>open\<close>: the argument says whether the device opens the stream.\<close>

definition client_open :: "bool \<Rightarrow> client \<Rightarrow> bool \<times> client" where
  "client_open opens c =
     (let c' = c\<lparr>cap := Some (VideoCapture opens)\<rparr>
      in (case cap c' of None \<Rightarrow> False | Some vc \<Rightarrow> isOpened vc, c'))"

text \<open>\<open>read\<close>: the argument is what \<open>self._cap.read()\<close> returns when it is called.\<close>

definition client_read :: "bool \<times> frame option \<Rightarrow> client \<Rightarrow> bool \<times> frame option" where
  "client_read dev c =
     (case cap c of
        None \<Rightarrow> (False, None)
      | Some vc \<Rightarrow> (case dev of (ok, frame) \<Rightarrow> if \<not> ok then (False, None) else (True, frame)))"

definition client_close :: "client \<Rightarrow> event list \<times> client" where
  "client_close c =
     (case cap c of
        None \<Rightarrow> ([], c)
      | Some vc \<Rightarrow> ([Release], c\<lparr>cap := None\<rparr>))"

subsection \<open>Detector objects\<close>

text \<open>
  The loop hands the frame array itself to \<open>detect\<close> and \<open>annotate\<close>, so a call can write
  into it before it returns or raises. Each method therefore yields a pair: the content
  of the array it was given when the call ends (the argument itself when the method does
  not write), and what the call returns or raises.
\<close>

record hazmat_obj =
  hz_detect :: "frame \<Rightarrow> frame \<times> (exn + (int list \<times> conf list \<times> box list))"
  hz_annotate :: "frame \<Rightarrow> int list \<Rightarrow> conf list \<Rightarrow> box list \<Rightarrow> frame \<times> (exn + frame)"
  hz_labels :: "string list option"

record qr_obj =
  qr_detect :: "frame \<Rightarrow> frame \<times> (exn + (string option \<times> box) list)"
  qr_annotate :: "frame \<Rightarrow> (string option \<times> box) list \<Rightarrow> frame \<times> (exn + frame)"

text \<open>A factory is an opaque callable; what a call of it does is an input of the iteration.\<close>

datatype callable = Callable

subsection \<open>CameraWorker\<close>

record worker =
  wclient :: client
  running :: bool
  target_fps :: pyfloat
  min_frame_interval :: pyfloat
  hazmat_factory :: "callable option"
  qr_factory :: "callable option"
  enable_hazmat :: bool
  enable_qr :: bool
  hazmat :: "hazmat_obj option"
  qr :: "qr_obj option"

text \<open>The local variables of \<open>run\<close> that live across iterations.\<close>

record loop_vars =
  last_frame_time :: pyfloat
  last_fps_time :: pyfloat
  frame_count :: nat
  fps_avg :: pyfloat

text \<open>\<open>__init__\<close>: the stored interval is the double \<open>1.0 / target_fps\<close>; the division
  raises for a zero rate.\<close>

definition worker_init :: "string \<Rightarrow> callable option \<Rightarrow> callable option \<Rightarrow> pyfloat \<Rightarrow> exn + worker" where
  "worker_init url hf qf fps =
     (case py_truediv (Fin 1) fps of
        Inl e \<Rightarrow> Inl e
      | Inr interval \<Rightarrow>
          Inr \<lparr>wclient = client_init url, running = False, target_fps = fps,
               min_frame_interval = interval, hazmat_factory = hf, qr_factory = qf,
               enable_hazmat = False, enable_qr = False, hazmat = None, qr = None\<rparr>)"

text \<open>
  What one pass of the \<open>while\<close> loop meets: whether \<open>stop()\<close> has run since the last test
  of \<open>_running\<close>, the consumer's writes to the two flags since the last pass, the clock,
  what the capture returns if it is read, what each factory does if it is called.
\<close>

record iter_env =
  stop_called :: bool
  set_enable_hazmat :: "bool option"
  set_enable_qr :: "bool option"
  time_now :: pyfloat
  cap_read :: "bool \<times> frame option"
  hazmat_factory_call :: "exn + hazmat_obj"
  qr_factory_call :: "exn + qr_obj"

definition consumer_writes :: "iter_env \<Rightarrow> worker \<Rightarrow> worker" where
  "consumer_writes env w =
     (let w1 = (case set_enable_hazmat env of None \<Rightarrow> w | Some b \<Rightarrow> w\<lparr>enable_hazmat := b\<rparr>)
      in case set_enable_qr env of None \<Rightarrow> w1 | Some b \<Rightarrow> w1\<lparr>enable_qr := b\<rparr>)"

text \<open>Lines 157-163 and 165-171: lazy construction, auto-disable on a raise.\<close>

definition construct_hazmat :: "iter_env \<Rightarrow> bool \<Rightarrow> worker \<Rightarrow> event list \<times> bool \<times> worker" where
  "construct_hazmat env enable_haz w =
     (if enable_haz \<and> hazmat w = None \<and> hazmat_factory w \<noteq> None then
        (case hazmat_factory_call env of
           Inr obj \<Rightarrow> ([FactoryCall Hazmat], enable_haz, w\<lparr>hazmat := Some obj\<rparr>)
         | Inl (Exception e) \<Rightarrow>
             ([FactoryCall Hazmat, Print (''[hazmat] init error: '' @ e)], False,
              w\<lparr>enable_hazmat := False\<rparr>))
      else ([], enable_haz, w))"

definition construct_qr :: "iter_env \<Rightarrow> bool \<Rightarrow> worker \<Rightarrow> event list \<times> bool \<times> worker" where
  "construct_qr env enable_q w =
     (if enable_q \<and> qr w = None \<and> qr_factory w \<noteq> None then
        (case qr_factory_call env of
           Inr obj \<Rightarrow> ([FactoryCall Qr], enable_q, w\<lparr>qr := Some obj\<rparr>)
         | Inl (Exception e) \<Rightarrow>
             ([FactoryCall Qr, Print (''[qr] init error: '' @ e)], False,
              w\<lparr>enable_qr := False\<rparr>))
      else ([], enable_q, w))"

text \<open>Lines 177-184: the texts; \<open>confs[i]\<close> raises when \<open>confs\<close> is the shorter list.\<close>

definition hazmat_texts :: "hazmat_obj \<Rightarrow> int list \<Rightarrow> conf list \<Rightarrow> exn + string list" where
  "hazmat_texts h cids confs =
     (case hz_labels h of
        Some labels \<Rightarrow>
          Inr [labels ! nat cid @ '' ('' @ c @ '')''.
                 (cid, c) \<leftarrow> zip cids confs, 0 \<le> cid \<and> cid < int (length labels)]
      | None \<Rightarrow>
          if length confs < length cids then Inl (Exception ''list index out of range'')
          else Inr [''id'' @ str_int cid @ '' ('' @ confs ! i @ '')''.
                      (i, cid) \<leftarrow> enumerate 0 cids])"

text \<open>
  Lines 173-186: the hazmat stage on the frame in flight. The variable \<open>frame\<close> is bound
  to the array that \<open>annotate\<close> returns only when \<open>annotate\<close> returns; after a raise it
  still names the array that was handed in, with whatever the calls wrote into it.
\<close>

definition hazmat_stage :: "bool \<Rightarrow> worker \<Rightarrow> frame \<Rightarrow> event list \<times> frame \<times> string list" where
  "hazmat_stage enable_haz w frame =
     (case hazmat w of
        None \<Rightarrow> ([], frame, [])
      | Some h \<Rightarrow>
          if \<not> enable_haz then ([], frame, [])
          else
            (case hz_detect h frame of
               (frame_d, Inl (Exception e)) \<Rightarrow>
                 ([DetectCall Hazmat, Print (''[hazmat] run error: '' @ e)], frame_d, [])
             | (frame_d, Inr (cids, confs, boxes)) \<Rightarrow>
                 (case hz_annotate h frame_d cids confs boxes of
                    (frame_a, Inl (Exception e)) \<Rightarrow>
                      ([DetectCall Hazmat, AnnotateCall Hazmat,
                        Print (''[hazmat] run error: '' @ e)], frame_a, [])
                  | (frame_a, Inr frame') \<Rightarrow>
                      (case hazmat_texts h cids confs of
                         Inl (Exception e) \<Rightarrow>
                           ([DetectCall Hazmat, AnnotateCall Hazmat,
                             Print (''[hazmat] run error: '' @ e)], frame', [])
                       | Inr texts \<Rightarrow>
                           ([DetectCall Hazmat, AnnotateCall Hazmat], frame', texts)))))"

text \<open>Lines 188-194: the QR stage.\<close>

definition qr_texts_of :: "(string option \<times> box) list \<Rightarrow> string list" where
  "qr_texts_of qr_res = [txt. (Some txt, b) \<leftarrow> qr_res, txt \<noteq> []]"

definition qr_stage :: "bool \<Rightarrow> worker \<Rightarrow> frame \<Rightarrow> event list \<times> frame \<times> string list" where
  "qr_stage enable_q w frame =
     (case qr w of
        None \<Rightarrow> ([], frame, [])
      | Some q \<Rightarrow>
          if \<not> enable_q then ([], frame, [])
          else
            (case qr_detect q frame of
               (frame_d, Inl (Exception e)) \<Rightarrow>
                 ([DetectCall Qr, Print (''[qr] run error: '' @ e)], frame_d, [])
             | (frame_d, Inr qr_res) \<Rightarrow>
                 (case qr_annotate q frame_d qr_res of
                    (frame_a, Inl (Exception e)) \<Rightarrow>
                      ([DetectCall Qr, AnnotateCall Qr, Print (''[qr] run error: '' @ e)],
                       frame_a, [])
                  | (frame_a, Inr frame') \<Rightarrow>
                      ([DetectCall Qr, AnnotateCall Qr], frame', qr_texts_of qr_res))))"

text \<open>
  Lines 196-200: the throughput sample. The window test and the quotient are computed in
  doubles; the divisor is at least \<open>1.0\<close> when the division is made, so it does not raise.
\<close>

definition fps_update :: "pyfloat \<Rightarrow> loop_vars \<Rightarrow> event list \<times> loop_vars" where
  "fps_update current_time v =
     (if py_ge (py_sub current_time (last_fps_time v)) (Fin 1) then
        (let avg = ieee_div (py_float (frame_count v)) (py_sub current_time (last_fps_time v))
         in ([FpsReady avg],
             v\<lparr>fps_avg := avg, frame_count := 0, last_fps_time := current_time\<rparr>))
      else ([], v))"

text \<open>Lines 148-204: what the loop does with a frame it has accepted.\<close>

definition process_frame ::
  "iter_env \<Rightarrow> pyfloat \<Rightarrow> frame \<Rightarrow> worker \<times> loop_vars \<Rightarrow> event list \<times> worker \<times> loop_vars" where
  "process_frame env current_time frame0 s =
     (case s of (w0, v0) \<Rightarrow>
        let v1 = v0\<lparr>frame_count := frame_count v0 + 1, last_frame_time := current_time\<rparr>;
            enable_haz0 = enable_hazmat w0;
            enable_q0 = enable_qr w0
        in case construct_hazmat env enable_haz0 w0 of (ev1, enable_haz, w1) \<Rightarrow>
           case construct_qr env enable_q0 w1 of (ev2, enable_q, w2) \<Rightarrow>
           case hazmat_stage enable_haz w2 frame0 of (ev3, frame1, haz_texts) \<Rightarrow>
           case qr_stage enable_q w2 frame1 of (ev4, frame2, qr_texts) \<Rightarrow>
           case fps_update current_time v1 of (ev5, v2) \<Rightarrow>
             (ev1 @ ev2 @ ev3 @ ev4 @ ev5 @
                [HazmatDet haz_texts, QrDet qr_texts, FrameReady frame2], w2, v2))"

text \<open>Lines 137-204: the body of the loop.\<close>

definition iteration :: "iter_env \<Rightarrow> worker \<times> loop_vars \<Rightarrow> event list \<times> worker \<times> loop_vars" where
  "iteration env s =
     (case s of (w0, v) \<Rightarrow>
        let w = consumer_writes env w0;
            current_time = time_now env
        in if py_lt (py_sub current_time (last_frame_time v)) (min_frame_interval w)
           then ([Msleep 5], w, v)
           else
             (case client_read (cap_read env) (wclient w) of
                (ok, None) \<Rightarrow> ([ClientRead, Msleep 10], w, v)
              | (ok, Some frame) \<Rightarrow>
                  if \<not> ok then ([ClientRead, Msleep 10], w, v)
                  else (case process_frame env current_time frame (w, v) of
                          (evs, s') \<Rightarrow> (ClientRead # evs, s'))))"

text \<open>
  The \<open>while self._running\<close> loop over the passes the world allows. The result holds, for
  each pass made, the clock value it read and its events; the state reached; and whether
  the loop has exited (\<open>True\<close>) or is still looping when the script of passes ends.
\<close>

fun loop ::
  "worker \<times> loop_vars \<Rightarrow> iter_env list \<Rightarrow>
     (pyfloat \<times> event list) list \<times> (worker \<times> loop_vars) \<times> bool" where
  "loop s [] = ([], s, False)"
| "loop s (env # envs) =
     (case s of (w, v) \<Rightarrow>
        if stop_called env \<or> \<not> running w then ([], (w\<lparr>running := False\<rparr>, v), True)
        else (case iteration env (w, v) of (evs, s') \<Rightarrow>
                case loop s' envs of (tr, s'', exited) \<Rightarrow>
                  ((time_now env, evs) # tr, s'', exited)))"

text \<open>What the world does during one \<open>run\<close> of the worker.\<close>

record world =
  cap_opens :: bool
  time_frame0 :: pyfloat
  time_fps0 :: pyfloat
  passes :: "iter_env list"

record run_result =
  before_loop :: "event list"
  in_loop :: "(pyfloat \<times> event list) list"
  after_loop :: "event list"
  final :: worker
  returned :: bool

definition run :: "world \<Rightarrow> worker \<Rightarrow> run_result" where
  "run wd w0 =
     (let w1 = w0\<lparr>running := True\<rparr>
      in case client_open (cap_opens wd) (wclient w1) of (ok, c) \<Rightarrow>
         let w2 = w1\<lparr>wclient := c\<rparr>
         in if \<not> ok then
              \<lparr>before_loop = [Opened False (''Could not open stream '' @ stream_url c)],
               in_loop = [], after_loop = [], final = w2, returned = True\<rparr>
            else
              let v = \<lparr>last_frame_time = time_frame0 wd, last_fps_time = time_fps0 wd,
                       frame_count = 0, fps_avg = Fin 0\<rparr>
              in case loop (w2, v) (passes wd) of (tr, (w3, v'), exited) \<Rightarrow>
                 if exited then
                   (case client_close (wclient w3) of (evs, c') \<Rightarrow>
                      \<lparr>before_loop = [Opened True ''opened''], in_loop = tr, after_loop = evs,
                       final = w3\<lparr>wclient := c'\<rparr>, returned = True\<rparr>)
                 else
                   \<lparr>before_loop = [Opened True ''opened''], in_loop = tr, after_loop = [],
                    final = w3, returned = False\<rparr>)"

definition trace :: "run_result \<Rightarrow> event list" where
  "trace r = before_loop r @ concat (map snd (in_loop r)) @ after_loop r"

subsection \<open>Observations on a run\<close>

fun is_frame_ready :: "event \<Rightarrow> bool" where
  "is_frame_ready (FrameReady f) = True"
| "is_frame_ready e = False"

fun is_fps_ready :: "event \<Rightarrow> bool" where
  "is_fps_ready (FpsReady x) = True"
| "is_fps_ready e = False"

fun is_findings :: "event \<Rightarrow> bool" where
  "is_findings (HazmatDet xs) = True"
| "is_findings (QrDet xs) = True"
| "is_findings e = False"

text \<open>The notifications to the consumer that carry a frame or its findings.\<close>

definition is_publish :: "event \<Rightarrow> bool" where
  "is_publish e = (is_findings e \<or> is_frame_ready e)"

text \<open>The clock values of the passes that accepted a frame, and of those that published
  a throughput sample.\<close>

definition accepted_times :: "(pyfloat \<times> event list) list \<Rightarrow> pyfloat list" where
  "accepted_times tr = map fst (filter (\<lambda>p. list_ex is_frame_ready (snd p)) tr)"


text \<open>Between neighbours of the list, the difference as the code computes it (the double
  \<open>b - a\<close>) is not below \<open>d\<close>.\<close>

fun paced :: "pyfloat \<Rightarrow> pyfloat list \<Rightarrow> bool" where
  "paced d (a # b # ts) = (\<not> py_lt (py_sub b a) d \<and> paced d (b # ts))"
| "paced d ts = True"


text \<open>The pass reads a frame and accepts it: the pacing test lets it through and the
  read succeeds with a frame.\<close>

definition accepts :: "iter_env \<Rightarrow> worker \<Rightarrow> loop_vars \<Rightarrow> frame \<Rightarrow> bool" where
  "accepts env w v frame =
     (\<not> py_lt (py_sub (time_now env) (last_frame_time v)) (min_frame_interval w)
      \<and> client_read (cap_read env) (wclient w) = (True, Some frame))"

definition events_of :: "(pyfloat \<times> event list) list \<Rightarrow> event list" where
  "events_of tr = concat (map snd tr)"

text \<open>A failed read: the device reports failure or hands over no frame.\<close>

definition read_fails :: "iter_env \<Rightarrow> bool" where
  "read_fails env = (\<not> fst (cap_read env) \<or> snd (cap_read env) = None)"

subsection \<open>The two stage slots, by kind\<close>

definition enabled :: "stage \<Rightarrow> worker \<Rightarrow> bool" where
  "enabled k w = (case k of Hazmat \<Rightarrow> enable_hazmat w | Qr \<Rightarrow> enable_qr w)"

definition constructed :: "stage \<Rightarrow> worker \<Rightarrow> bool" where
  "constructed k w = (case k of Hazmat \<Rightarrow> hazmat w \<noteq> None | Qr \<Rightarrow> qr w \<noteq> None)"

definition has_factory :: "stage \<Rightarrow> worker \<Rightarrow> bool" where
  "has_factory k w = (case k of Hazmat \<Rightarrow> hazmat_factory w \<noteq> None | Qr \<Rightarrow> qr_factory w \<noteq> None)"

definition factory_raises :: "stage \<Rightarrow> iter_env \<Rightarrow> bool" where
  "factory_raises k env =
     (case k of Hazmat \<Rightarrow> isl (hazmat_factory_call env) | Qr \<Rightarrow> isl (qr_factory_call env))"

definition consumer_write :: "stage \<Rightarrow> iter_env \<Rightarrow> bool option" where
  "consumer_write k env = (case k of Hazmat \<Rightarrow> set_enable_hazmat env | Qr \<Rightarrow> set_enable_qr env)"

text \<open>The findings lists published for a stage.\<close>

fun findings_of :: "stage \<Rightarrow> event list \<Rightarrow> string list list" where
  "findings_of k [] = []"
| "findings_of Hazmat (HazmatDet xs # evs) = xs # findings_of Hazmat evs"
| "findings_of Qr (QrDet xs # evs) = xs # findings_of Qr evs"
| "findings_of k (e # evs) = findings_of k evs"

text \<open>A stage object's \<open>detect\<close> or \<open>annotate\<close> raises on the frame.\<close>

definition hazmat_raises :: "hazmat_obj \<Rightarrow> frame \<Rightarrow> bool" where
  "hazmat_raises h f =
     (case hz_detect h f of
        (f_d, Inl e) \<Rightarrow> True
      | (f_d, Inr (cids, confs, boxes)) \<Rightarrow> isl (snd (hz_annotate h f_d cids confs boxes)))"

definition qr_raises :: "qr_obj \<Rightarrow> frame \<Rightarrow> bool" where
  "qr_raises q f =
     (case qr_detect q f of
        (f_d, Inl e) \<Rightarrow> True
      | (f_d, Inr qr_res) \<Rightarrow> isl (snd (qr_annotate q f_d qr_res)))"

text \<open>The content of the array handed to a stage once its \<open>detect\<close>, and \<open>annotate\<close> if
  it is reached, have run on it.\<close>

definition hazmat_leaves :: "hazmat_obj \<Rightarrow> frame \<Rightarrow> frame" where
  "hazmat_leaves h f =
     (case hz_detect h f of
        (f_d, Inl e) \<Rightarrow> f_d
      | (f_d, Inr (cids, confs, boxes)) \<Rightarrow> fst (hz_annotate h f_d cids confs boxes))"

definition qr_leaves :: "qr_obj \<Rightarrow> frame \<Rightarrow> frame" where
  "qr_leaves q f =
     (case qr_detect q f of
        (f_d, Inl e) \<Rightarrow> f_d
      | (f_d, Inr qr_res) \<Rightarrow> fst (qr_annotate q f_d qr_res))"

subsection \<open>Concrete inputs\<close>

definition labelled_hazmat :: hazmat_obj where
  "labelled_hazmat =
     \<lparr>hz_detect = (\<lambda>f. (f, Inr ([1], [''0.87''], [[0, 0, 4, 4]]))),
      hz_annotate = (\<lambda>f cids confs boxes. (f, Inr (f @ [255]))),
      hz_labels = Some [''explosive'', ''flammable'']\<rparr>"

definition broken_hazmat :: hazmat_obj where
  "broken_hazmat =
     \<lparr>hz_detect = (\<lambda>f. (f, Inl (Exception ''bad input shape''))),
      hz_annotate = (\<lambda>f cids confs boxes. (f, Inr (f @ [255]))),
      hz_labels = None\<rparr>"

text \<open>A hazmat object whose \<open>annotate\<close> draws into the array it is given (it sets the first
  pixel to 99) and then raises.\<close>

definition scribbling_hazmat :: hazmat_obj where
  "scribbling_hazmat =
     \<lparr>hz_detect = (\<lambda>f. (f, Inr ([1], [''0.87''], [[0, 0, 4, 4]]))),
      hz_annotate = (\<lambda>f cids confs boxes. (f[0 := 99], Inl (Exception ''cannot draw''))),
      hz_labels = None\<rparr>"

definition text_qr :: qr_obj where
  "text_qr =
     \<lparr>qr_detect = (\<lambda>f. (f, Inr [(Some ''robot-7'', [1, 1, 2, 2]), (Some [], [0, 0, 1, 1])])),
      qr_annotate = (\<lambda>f qr_res. (f, Inr (f @ [7])))\<rparr>"

definition broken_qr :: qr_obj where
  "broken_qr =
     \<lparr>qr_detect = (\<lambda>f. (f, Inr [(Some ''robot-7'', [1, 1, 2, 2])])),
      qr_annotate = (\<lambda>f qr_res. (f, Inl (Exception ''cannot draw'')))\<rparr>"

text \<open>A worker built for 8 frames per second, started, with its stream open.\<close>

definition cam_worker :: worker where
  "cam_worker =
     \<lparr>wclient = \<lparr>stream_url = ''http://192.168.4.1:81/stream'', timeout = 3,
                 cap = Some (VideoCapture True)\<rparr>,
      running = True, target_fps = Fin 8, min_frame_interval = Fin (1 / 8),
      hazmat_factory = Some Callable, qr_factory = Some Callable,
      enable_hazmat = False, enable_qr = False, hazmat = None, qr = None\<rparr>"

text \<open>The same worker as \<open>__init__\<close> leaves it.\<close>

definition idle_worker :: worker where
  "idle_worker =
     cam_worker\<lparr>running := False, wclient := client_init ''http://192.168.4.1:81/stream''\<rparr>"

definition start_vars :: loop_vars where
  "start_vars =
     \<lparr>last_frame_time = Fin 0, last_fps_time = Fin 0, frame_count = 0, fps_avg = Fin 0\<rparr>"

text \<open>A pass at clock value \<open>t\<close>: no stop, no write of the consumer, the read gives a
  frame, both factories would return a working object.\<close>

definition pass_at :: "rat \<Rightarrow> iter_env" where
  "pass_at t =
     \<lparr>stop_called = False, set_enable_hazmat = None, set_enable_qr = None, time_now = Fin t,
      cap_read = (True, Some [10, 20, 30]), hazmat_factory_call = Inr labelled_hazmat,
      qr_factory_call = Inr text_qr\<rparr>"

definition cam_world :: world where
  "cam_world =
     \<lparr>cap_opens = True, time_frame0 = Fin 0, time_fps0 = Fin 0,
      passes = [pass_at 1, pass_at (17 / 16), pass_at (9 / 8),
                (pass_at (5 / 4))\<lparr>stop_called := True\<rparr>]\<rparr>"

text \<open>A pass in which the read fails, and a world in which the stream does not open.\<close>

definition no_frame_at :: "rat \<Rightarrow> iter_env" where
  "no_frame_at t = (pass_at t)\<lparr>cap_read := (False, None)\<rparr>"

definition dead_world :: world where
  "dead_world = cam_world\<lparr>cap_opens := False\<rparr>"

text \<open>A pass in which the hazmat factory raises.\<close>

definition raising_factory_pass :: iter_env where
  "raising_factory_pass =
     (pass_at 1)\<lparr>hazmat_factory_call := Inl (Exception ''weights file missing'')\<rparr>"

text \<open>
  A rate just below \<open>2^22 / 69905\<close> (the double \<open>60.000057220513554\<close>), the worker that
  \<open>__init__\<close> builds for it, and a world whose clock runs at the scale of \<open>time.time()\<close>:
  the stream opens at \<open>1700000000.0\<close>, the passes come one second later and then
  \<open>69905 / 2^22\<close> seconds after that.
\<close>

definition epoch_rate :: rat where
  "epoch_rate = 16492690145295 / 274877906944"

definition epoch_worker :: worker where
  "epoch_worker =
     \<lparr>wclient = client_init ''http://192.168.4.1:81/stream'', running = False,
      target_fps = Fin epoch_rate, min_frame_interval = Fin (69905 / 4194304),
      hazmat_factory = None, qr_factory = None,
      enable_hazmat = False, enable_qr = False, hazmat = None, qr = None\<rparr>"

definition epoch_world :: world where
  "epoch_world =
     \<lparr>cap_opens = True, time_frame0 = Fin 1700000000, time_fps0 = Fin 1700000000,
      passes = [pass_at 1700000001, pass_at (7130316804264209 / 4194304),
                (pass_at 1700000002)\<lparr>stop_called := True\<rparr>]\<rparr>"


section \<open>Properties\<close>

subsection \<open>The parameter-set worker\<close>

lemma setter_run_emits:
  "finished_emits (fst (setter_run env t)) =
     [host t \<noteq> [] \<and> \<not> interrupted t \<and> \<not> interrupt_before env \<and> \<not> interrupt_during env
        \<and> get_outcome env = Response 200]"
  by (cases "get_outcome env")
     (auto simp: setter_run_def finished_emits_def requestInterruption_def Let_def)

lemma setter_run_calls:
  "http_calls (fst (setter_run env t)) =
     (if host t = [] \<or> interrupted t \<or> interrupt_before env then 0 else 1)"
  by (cases "get_outcome env")
     (auto simp: setter_run_def http_calls_def requestInterruption_def Let_def)

text \<open>
  C9. Every run of the parameter-set worker emits \<open>finished\<close> exactly once. The flag is
  tested before the request and again when it returns: an interruption before or during
  the request gives \<open>finished(False)\<close>, and one that comes before the first test means the
  request is never made. A request that raises gives \<open>finished(False)\<close>. The outcome is
  \<open>True\<close> exactly for a non-empty host, no interruption and status 200.
\<close>

theorem C9_setter_reports_once:
  "(\<exists>b. finished_emits (fst (setter_run env t)) = [b])
   \<and> (interrupted t \<or> interrupt_before env \<or> interrupt_during env
        \<longrightarrow> finished_emits (fst (setter_run env t)) = [False])
   \<and> (interrupted t \<or> interrupt_before env \<longrightarrow> http_calls (fst (setter_run env t)) = 0)
   \<and> (get_outcome env \<noteq> Response 200
        \<longrightarrow> finished_emits (fst (setter_run env t)) = [False])
   \<and> (finished_emits (fst (setter_run env t)) = [True] \<longleftrightarrow>
        host t \<noteq> [] \<and> \<not> interrupted t \<and> \<not> interrupt_before env \<and> \<not> interrupt_during env
        \<and> get_outcome env = Response 200)"
  unfolding setter_run_emits setter_run_calls by auto

theorem C9_setter_reports_once_witness:
  "interrupt_during \<lparr>interrupt_before = False, interrupt_during = True, get_outcome = Response 200\<rparr>
   \<and> finished_emits (fst (setter_run
         \<lparr>interrupt_before = False, interrupt_during = True, get_outcome = Response 200\<rparr>
         (setter_init ''192.168.4.1'' [(''framesize'', ''8'')] 3))) = [False]
   \<and> get_outcome \<lparr>interrupt_before = False, interrupt_during = False,
        get_outcome = RequestException ''timed out''\<rparr> \<noteq> Response 200
   \<and> finished_emits (fst (setter_run
         \<lparr>interrupt_before = False, interrupt_during = False,
          get_outcome = RequestException ''timed out''\<rparr>
         (setter_init ''192.168.4.1'' [(''framesize'', ''8'')] 3))) = [False]"
  using C9_setter_reports_once
      [of "\<lparr>interrupt_before = False, interrupt_during = True, get_outcome = Response 200\<rparr>"
          "setter_init ''192.168.4.1'' [(''framesize'', ''8'')] 3"]
    C9_setter_reports_once
      [of "\<lparr>interrupt_before = False, interrupt_during = False,
            get_outcome = RequestException ''timed out''\<rparr>"
          "setter_init ''192.168.4.1'' [(''framesize'', ''8'')] 3"]
  by simp

subsection \<open>Opening the stream\<close>

text \<open>
  C3. When the stream does not open, the whole trace of the run is the single
  notification \<open>opened(False, "Could not open stream <url>")\<close>: the loop is never entered,
  so no frame and no findings are ever published, and \<open>run\<close> returns.
\<close>

theorem C3_open_failure:
  "\<not> cap_opens wd \<Longrightarrow>
     trace (run wd w) = [Opened False (''Could not open stream '' @ stream_url (wclient w))]
     \<and> in_loop (run wd w) = []
     \<and> returned (run wd w)"
  by (simp add: run_def client_open_def trace_def Let_def)

theorem C3_open_failure_witness:
  "\<not> cap_opens dead_world
   \<and> trace (run dead_world idle_worker)
     = [Opened False ''Could not open stream http://192.168.4.1:81/stream'']
   \<and> in_loop (run dead_world idle_worker) = []
   \<and> returned (run dead_world idle_worker)"
proof -
  have d: "\<not> cap_opens dead_world"
    by (simp add: dead_world_def)
  show ?thesis
    using C3_open_failure [OF d, of idle_worker] d
    by (simp add: idle_worker_def client_init_def)
qed

subsection \<open>The parts of the loop body\<close>

lemma consumer_writes_fields [simp]:
  "min_frame_interval (consumer_writes env w) = min_frame_interval w"
  "wclient (consumer_writes env w) = wclient w"
  "running (consumer_writes env w) = running w"
  "hazmat_factory (consumer_writes env w) = hazmat_factory w"
  "qr_factory (consumer_writes env w) = qr_factory w"
  "hazmat (consumer_writes env w) = hazmat w"
  "qr (consumer_writes env w) = qr w"
  by (simp_all add: consumer_writes_def split: option.splits)

lemma consumer_writes_enabled:
  "enabled k (consumer_writes env w) =
     (case consumer_write k env of None \<Rightarrow> enabled k w | Some b \<Rightarrow> b)"
  by (cases k) (simp_all add: consumer_writes_def enabled_def consumer_write_def split: option.splits)

lemma consumer_writes_slots [simp]:
  "constructed k (consumer_writes env w) = constructed k w"
  "has_factory k (consumer_writes env w) = has_factory k w"
  by (cases k; simp add: constructed_def has_factory_def)+

lemma construct_hazmat_fields:
  assumes "construct_hazmat env b w = (ev, b', w')"
  shows "min_frame_interval w' = min_frame_interval w" "wclient w' = wclient w"
    "running w' = running w" "hazmat_factory w' = hazmat_factory w"
    "qr_factory w' = qr_factory w" "enable_qr w' = enable_qr w" "qr w' = qr w"
  using assms
  by (auto simp: construct_hazmat_def split: if_splits sum.splits exn.splits)

lemma construct_qr_fields:
  assumes "construct_qr env b w = (ev, b', w')"
  shows "min_frame_interval w' = min_frame_interval w" "wclient w' = wclient w"
    "running w' = running w" "hazmat_factory w' = hazmat_factory w"
    "qr_factory w' = qr_factory w" "enable_hazmat w' = enable_hazmat w" "hazmat w' = hazmat w"
  using assms
  by (auto simp: construct_qr_def split: if_splits sum.splits exn.splits)

lemma construct_hazmat_events:
  "construct_hazmat env b w = (ev, b', w') \<Longrightarrow> set ev \<subseteq> insert (FactoryCall Hazmat) (range Print)"
  by (auto simp: construct_hazmat_def split: if_splits sum.splits exn.splits)

lemma construct_qr_events:
  "construct_qr env b w = (ev, b', w') \<Longrightarrow> set ev \<subseteq> insert (FactoryCall Qr) (range Print)"
  by (auto simp: construct_qr_def split: if_splits sum.splits exn.splits)

lemma hazmat_stage_events:
  "hazmat_stage b w f = (ev, f', ts) \<Longrightarrow>
     set ev \<subseteq> {DetectCall Hazmat, AnnotateCall Hazmat} \<union> range Print"
  by (auto simp: hazmat_stage_def
      split: if_splits sum.splits exn.splits option.splits prod.splits)

lemma qr_stage_events:
  "qr_stage b w f = (ev, f', ts) \<Longrightarrow> set ev \<subseteq> {DetectCall Qr, AnnotateCall Qr} \<union> range Print"
  by (auto simp: qr_stage_def
      split: if_splits sum.splits exn.splits option.splits prod.splits)

lemma fps_update_cases:
  "fps_update t v = (ev, v') \<Longrightarrow>
     last_frame_time v' = last_frame_time v \<and>
     (if py_ge (py_sub t (last_fps_time v)) (Fin 1)
      then ev = [FpsReady (ieee_div (py_float (frame_count v)) (py_sub t (last_fps_time v)))]
           \<and> frame_count v' = 0 \<and> last_fps_time v' = t
      else ev = [] \<and> v' = v)"
  by (auto simp: fps_update_def Let_def split: if_splits)

lemma fps_update_events:
  "fps_update t v = (ev, v') \<Longrightarrow> set ev \<subseteq> range FpsReady"
  by (auto simp: fps_update_def Let_def split: if_splits)

text \<open>What construction does to a slot.\<close>

lemma construct_hazmat_slot:
  assumes "construct_hazmat env (enable_hazmat w) w = (ev, b', w')"
  shows "b' = enable_hazmat w'"
    and "enable_hazmat w' =
          (enable_hazmat w \<and> \<not> (hazmat w = None \<and> hazmat_factory w \<noteq> None
                                  \<and> isl (hazmat_factory_call env)))"
    and "(hazmat w' \<noteq> None) =
          (hazmat w \<noteq> None \<or> enable_hazmat w \<and> hazmat_factory w \<noteq> None
                                  \<and> \<not> isl (hazmat_factory_call env))"
    and "(FactoryCall Hazmat \<in> set ev) =
          (enable_hazmat w \<and> hazmat w = None \<and> hazmat_factory w \<noteq> None)"
    and "length (filter (\<lambda>e. e = FactoryCall k) ev) \<le> 1"
    and "hazmat w \<noteq> None \<Longrightarrow> hazmat w' = hazmat w"
  using assms
  by (auto simp: construct_hazmat_def split: if_splits sum.splits exn.splits)

lemma construct_qr_slot:
  assumes "construct_qr env (enable_qr w) w = (ev, b', w')"
  shows "b' = enable_qr w'"
    and "enable_qr w' =
          (enable_qr w \<and> \<not> (qr w = None \<and> qr_factory w \<noteq> None \<and> isl (qr_factory_call env)))"
    and "(qr w' \<noteq> None) =
          (qr w \<noteq> None \<or> enable_qr w \<and> qr_factory w \<noteq> None \<and> \<not> isl (qr_factory_call env))"
    and "(FactoryCall Qr \<in> set ev) = (enable_qr w \<and> qr w = None \<and> qr_factory w \<noteq> None)"
    and "length (filter (\<lambda>e. e = FactoryCall k) ev) \<le> 1"
    and "qr w \<noteq> None \<Longrightarrow> qr w' = qr w"
  using assms
  by (auto simp: construct_qr_def split: if_splits sum.splits exn.splits)

text \<open>What a stage does with the frame.\<close>

lemma hazmat_stage_off:
  "\<not> b \<or> hazmat w = None \<Longrightarrow> hazmat_stage b w f = ([], f, [])"
  by (auto simp: hazmat_stage_def split: option.splits)

lemma qr_stage_off:
  "\<not> b \<or> qr w = None \<Longrightarrow> qr_stage b w f = ([], f, [])"
  by (auto simp: qr_stage_def split: option.splits)

lemma hazmat_stage_raises:
  "hazmat w = Some h \<Longrightarrow> hazmat_raises h f \<Longrightarrow> hazmat_stage True w f = (ev, f', ts) \<Longrightarrow>
     f' = hazmat_leaves h f \<and> ts = [] \<and> (\<exists>m. last ev = Print m) \<and> ev \<noteq> []"
  by (auto simp: hazmat_stage_def hazmat_raises_def hazmat_leaves_def
      split: sum.splits exn.splits prod.splits)

lemma qr_stage_raises:
  "qr w = Some q \<Longrightarrow> qr_raises q f \<Longrightarrow> qr_stage True w f = (ev, f', ts) \<Longrightarrow>
     f' = qr_leaves q f \<and> ts = [] \<and> (\<exists>m. last ev = Print m) \<and> ev \<noteq> []"
  by (auto simp: qr_stage_def qr_raises_def qr_leaves_def
      split: sum.splits exn.splits prod.splits)

lemma hazmat_stage_calls:
  "hazmat_stage b w f = (ev, f', ts) \<Longrightarrow>
     (DetectCall Hazmat \<in> set ev) = (b \<and> hazmat w \<noteq> None) \<and>
     (AnnotateCall Hazmat \<in> set ev \<longrightarrow> b \<and> hazmat w \<noteq> None) \<and>
     FactoryCall k \<notin> set ev"
  by (auto simp: hazmat_stage_def
      split: if_splits sum.splits exn.splits option.splits prod.splits)

lemma qr_stage_calls:
  "qr_stage b w f = (ev, f', ts) \<Longrightarrow>
     (DetectCall Qr \<in> set ev) = (b \<and> qr w \<noteq> None) \<and>
     (AnnotateCall Qr \<in> set ev \<longrightarrow> b \<and> qr w \<noteq> None) \<and>
     FactoryCall k \<notin> set ev"
  by (auto simp: qr_stage_def
      split: if_splits sum.splits exn.splits option.splits prod.splits)

subsection \<open>An accepted frame\<close>

lemma process_frame_shape:
  assumes "process_frame env t f0 (w, v) = (evs, w', v')"
  shows "\<exists>ev1 w1 ev2 ev3 f1 hz ev4 f2 qz ev5.
      construct_hazmat env (enable_hazmat w) w = (ev1, enable_hazmat w1, w1)
    \<and> construct_qr env (enable_qr w1) w1 = (ev2, enable_qr w', w')
    \<and> hazmat_stage (enable_hazmat w') w' f0 = (ev3, f1, hz)
    \<and> qr_stage (enable_qr w') w' f1 = (ev4, f2, qz)
    \<and> fps_update t (v\<lparr>frame_count := frame_count v + 1, last_frame_time := t\<rparr>) = (ev5, v')
    \<and> evs = ev1 @ ev2 @ ev3 @ ev4 @ ev5 @ [HazmatDet hz, QrDet qz, FrameReady f2]"
proof -
  obtain ev1 b1 w1 where h: "construct_hazmat env (enable_hazmat w) w = (ev1, b1, w1)"
    by (cases "construct_hazmat env (enable_hazmat w) w") auto
  obtain ev2 b2 w2 where q: "construct_qr env (enable_qr w) w1 = (ev2, b2, w2)"
    by (cases "construct_qr env (enable_qr w) w1") auto
  have b1: "b1 = enable_hazmat w1" using construct_hazmat_slot(1) [OF h] .
  have eq: "enable_qr w1 = enable_qr w" using construct_hazmat_fields(6) [OF h] .
  have b2: "b2 = enable_qr w2" using construct_qr_slot(1) [of env w1 ev2 b2 w2] q eq by simp
  have b1': "b1 = enable_hazmat w2" using b1 construct_qr_fields(6) [OF q] by simp
  obtain ev3 f1 hz where hs: "hazmat_stage b1 w2 f0 = (ev3, f1, hz)"
    by (cases "hazmat_stage b1 w2 f0") auto
  obtain ev4 f2 qz where qs: "qr_stage b2 w2 f1 = (ev4, f2, qz)"
    by (cases "qr_stage b2 w2 f1") auto
  obtain ev5 v2 where u:
    "fps_update t (v\<lparr>frame_count := frame_count v + 1, last_frame_time := t\<rparr>) = (ev5, v2)"
    by (cases "fps_update t (v\<lparr>frame_count := frame_count v + 1, last_frame_time := t\<rparr>)") auto
  have r: "evs = ev1 @ ev2 @ ev3 @ ev4 @ ev5 @ [HazmatDet hz, QrDet qz, FrameReady f2]"
    "w' = w2" "v' = v2"
    using assms h q hs qs u by (simp_all add: process_frame_def Let_def)
  show ?thesis
    using h q hs qs u r b1 b2 b1' eq by auto
qed

lemma process_frame_fields:
  assumes "process_frame env t f0 (w, v) = (evs, w', v')"
  shows "min_frame_interval w' = min_frame_interval w" "wclient w' = wclient w"
    "running w' = running w" "hazmat_factory w' = hazmat_factory w"
    "qr_factory w' = qr_factory w" "last_frame_time v' = t"
proof -
  from process_frame_shape [OF assms] obtain ev1 w1 ev2 ev5 where
    h: "construct_hazmat env (enable_hazmat w) w = (ev1, enable_hazmat w1, w1)" and
    q: "construct_qr env (enable_qr w1) w1 = (ev2, enable_qr w', w')" and
    u: "fps_update t (v\<lparr>frame_count := frame_count v + 1, last_frame_time := t\<rparr>) = (ev5, v')"
    by blast
  show "min_frame_interval w' = min_frame_interval w" "wclient w' = wclient w"
    "running w' = running w" "hazmat_factory w' = hazmat_factory w"
    "qr_factory w' = qr_factory w"
    using construct_hazmat_fields [OF h] construct_qr_fields [OF q] by simp_all
  show "last_frame_time v' = t"
    using fps_update_cases [OF u] by simp
qed

text \<open>The events of an accepted frame: calls and prints, then at most one throughput
  sample, then the two findings lists and the frame.\<close>

lemma process_frame_events:
  assumes "process_frame env t f0 (w, v) = (evs, w', v')"
  shows "\<exists>pre ev5 f1 f2 hz qz a b.
      evs = pre @ ev5 @ [HazmatDet hz, QrDet qz, FrameReady f2]
    \<and> set pre \<subseteq> range FactoryCall \<union> range DetectCall \<union> range AnnotateCall \<union> range Print
    \<and> hazmat_stage (enable_hazmat w') w' f0 = (a, f1, hz)
    \<and> qr_stage (enable_qr w') w' f1 = (b, f2, qz)
    \<and> fps_update t (v\<lparr>frame_count := frame_count v + 1, last_frame_time := t\<rparr>) = (ev5, v')"
proof -
  from process_frame_shape [OF assms] obtain ev1 w1 ev2 ev3 f1 hz ev4 f2 qz ev5 where
    h: "construct_hazmat env (enable_hazmat w) w = (ev1, enable_hazmat w1, w1)" and
    q: "construct_qr env (enable_qr w1) w1 = (ev2, enable_qr w', w')" and
    hs: "hazmat_stage (enable_hazmat w') w' f0 = (ev3, f1, hz)" and
    qs: "qr_stage (enable_qr w') w' f1 = (ev4, f2, qz)" and
    u: "fps_update t (v\<lparr>frame_count := frame_count v + 1, last_frame_time := t\<rparr>) = (ev5, v')" and
    e: "evs = ev1 @ ev2 @ ev3 @ ev4 @ ev5 @ [HazmatDet hz, QrDet qz, FrameReady f2]"
    by blast
  have "set (ev1 @ ev2 @ ev3 @ ev4)
      \<subseteq> range FactoryCall \<union> range DetectCall \<union> range AnnotateCall \<union> range Print"
    using construct_hazmat_events [OF h] construct_qr_events [OF q] hazmat_stage_events [OF hs]
      qr_stage_events [OF qs]
    by auto
  then show ?thesis
    using e hs qs u by (intro exI [of _ "ev1 @ ev2 @ ev3 @ ev4"] exI conjI) auto
qed

lemma quiet_filter:
  "set pre \<subseteq> range FactoryCall \<union> range DetectCall \<union> range AnnotateCall \<union> range Print \<Longrightarrow>
     filter is_publish pre = [] \<and> filter is_fps_ready pre = [] \<and> findings_of k pre = []
     \<and> Release \<notin> set pre \<and> ClientRead \<notin> set pre"
proof (induction pre)
  case Nil
  then show ?case by simp
next
  case (Cons e pre)
  then show ?case by (cases k) (auto simp: is_publish_def)
qed

lemma findings_of_append: "findings_of k (xs @ ys) = findings_of k xs @ findings_of k ys"
  by (induction k xs rule: findings_of.induct) auto

lemma process_frame_publishes:
  assumes "process_frame env t f0 (w, v) = (evs, w', v')"
  shows "\<exists>a b f1 f2 hz qz.
      filter is_publish evs = [HazmatDet hz, QrDet qz, FrameReady f2]
    \<and> hazmat_stage (enable_hazmat w') w' f0 = (a, f1, hz)
    \<and> qr_stage (enable_qr w') w' f1 = (b, f2, qz)
    \<and> findings_of Hazmat evs = [hz] \<and> findings_of Qr evs = [qz]
    \<and> Release \<notin> set evs"
proof -
  from process_frame_events [OF assms] obtain pre ev5 f1 f2 hz qz a b where
    e: "evs = pre @ ev5 @ [HazmatDet hz, QrDet qz, FrameReady f2]" and
    p: "set pre \<subseteq> range FactoryCall \<union> range DetectCall \<union> range AnnotateCall \<union> range Print" and
    hs: "hazmat_stage (enable_hazmat w') w' f0 = (a, f1, hz)" and
    qs: "qr_stage (enable_qr w') w' f1 = (b, f2, qz)" and
    u: "fps_update t (v\<lparr>frame_count := frame_count v + 1, last_frame_time := t\<rparr>) = (ev5, v')"
    by blast
  have 5: "ev5 = [] \<or> (\<exists>x. ev5 = [FpsReady x])"
    using fps_update_cases [OF u] by (auto split: if_splits)
  have "filter is_publish evs = [HazmatDet hz, QrDet qz, FrameReady f2]"
    using quiet_filter [OF p, of Hazmat] 5 by (auto simp: e is_publish_def)
  moreover have "findings_of Hazmat evs = [hz]" "findings_of Qr evs = [qz]"
    using quiet_filter [OF p, of Hazmat] quiet_filter [OF p, of Qr] 5
    by (auto simp: e findings_of_append)
  moreover have "Release \<notin> set evs"
    using quiet_filter [OF p, of Hazmat] 5 by (auto simp: e)
  ultimately show ?thesis using hs qs by blast
qed


text \<open>The calls on a stage slot while a frame is processed.\<close>

lemma process_frame_slot:
  assumes "process_frame env t f0 (w, v) = (evs, w', v')"
  shows "enabled k w' =
          (enabled k w \<and> \<not> (\<not> constructed k w \<and> has_factory k w \<and> factory_raises k env))"
    and "constructed k w' =
          (constructed k w \<or> enabled k w \<and> has_factory k w \<and> \<not> factory_raises k env)"
    and "(FactoryCall k \<in> set evs) = (enabled k w \<and> \<not> constructed k w \<and> has_factory k w)"
    and "length (filter (\<lambda>e. e = FactoryCall k) evs) \<le> 1"
    and "(DetectCall k \<in> set evs) = (enabled k w' \<and> constructed k w')"
    and "AnnotateCall k \<in> set evs \<longrightarrow> enabled k w' \<and> constructed k w'"
    and "\<exists>xs. findings_of k evs = [xs] \<and> (\<not> (enabled k w' \<and> constructed k w') \<longrightarrow> xs = [])"
proof -
  from process_frame_shape [OF assms] obtain ev1 w1 ev2 ev3 f1 hz ev4 f2 qz ev5 where
    h: "construct_hazmat env (enable_hazmat w) w = (ev1, enable_hazmat w1, w1)" and
    q: "construct_qr env (enable_qr w1) w1 = (ev2, enable_qr w', w')" and
    hs: "hazmat_stage (enable_hazmat w') w' f0 = (ev3, f1, hz)" and
    qs: "qr_stage (enable_qr w') w' f1 = (ev4, f2, qz)" and
    u: "fps_update t (v\<lparr>frame_count := frame_count v + 1, last_frame_time := t\<rparr>) = (ev5, v')" and
    e: "evs = ev1 @ ev2 @ ev3 @ ev4 @ ev5 @ [HazmatDet hz, QrDet qz, FrameReady f2]"
    by blast
  note hf = construct_hazmat_fields [OF h] and qf = construct_qr_fields [OF q]
  note hsl = construct_hazmat_slot [OF h] and qsl = construct_qr_slot [OF q]
  note hev = construct_hazmat_events [OF h] and qev = construct_qr_events [OF q]
  note hse = hazmat_stage_events [OF hs] and qse = qr_stage_events [OF qs]
  note hsc = hazmat_stage_calls [OF hs] and qsc = qr_stage_calls [OF qs]
  note fe = fps_update_events [OF u]
  show "enabled k w' =
          (enabled k w \<and> \<not> (\<not> constructed k w \<and> has_factory k w \<and> factory_raises k env))"
    using hf qf hsl(2) qsl(2)
    by (cases k) (auto simp: enabled_def constructed_def has_factory_def factory_raises_def)
  show "constructed k w' =
          (constructed k w \<or> enabled k w \<and> has_factory k w \<and> \<not> factory_raises k env)"
    using hf qf hsl(3) qsl(3)
    by (cases k) (auto simp: enabled_def constructed_def has_factory_def factory_raises_def)
  have pre: "set (ev1 @ ev2 @ ev3 @ ev4)
      \<subseteq> range FactoryCall \<union> range DetectCall \<union> range AnnotateCall \<union> range Print"
    using hev qev hse qse by auto
  have f1: "(FactoryCall Hazmat \<in> set ev1) =
              (enable_hazmat w \<and> hazmat w = None \<and> hazmat_factory w \<noteq> None)"
    "FactoryCall Qr \<notin> set ev1" "length (filter (\<lambda>e. e = FactoryCall k) ev1) \<le> 1"
    using hsl(4,5) hev by auto
  have f2: "(FactoryCall Qr \<in> set ev2) = (enable_qr w \<and> qr w = None \<and> qr_factory w \<noteq> None)"
    "FactoryCall Hazmat \<notin> set ev2" "length (filter (\<lambda>e. e = FactoryCall k) ev2) \<le> 1"
    using qsl(4,5) qev hf by auto
  have f12: "k = Hazmat \<Longrightarrow> filter (\<lambda>e. e = FactoryCall k) ev2 = []"
    "k = Qr \<Longrightarrow> filter (\<lambda>e. e = FactoryCall k) ev1 = []"
    using f1(2) f2(2) by (auto simp: filter_empty_conv)
  have f3: "FactoryCall k \<notin> set ev3" "FactoryCall k \<notin> set ev4" "FactoryCall k \<notin> set ev5"
    using hse qse fe by auto
  show "(FactoryCall k \<in> set evs) = (enabled k w \<and> \<not> constructed k w \<and> has_factory k w)"
    using f1 f2 f3
    by (cases k) (auto simp: e enabled_def constructed_def has_factory_def)
  show "length (filter (\<lambda>e. e = FactoryCall k) evs) \<le> 1"
  proof -
    have "filter (\<lambda>e. e = FactoryCall k) ev3 = []" "filter (\<lambda>e. e = FactoryCall k) ev4 = []"
      "filter (\<lambda>e. e = FactoryCall k) ev5 = []"
      using f3 by (auto simp: filter_empty_conv)
    then show ?thesis
      using f1(3) f2(3) f12 by (cases k) (simp_all add: e)
  qed
  have d: "DetectCall k \<notin> set ev1" "DetectCall k \<notin> set ev2" "DetectCall k \<notin> set ev5"
    "AnnotateCall k \<notin> set ev1" "AnnotateCall k \<notin> set ev2" "AnnotateCall k \<notin> set ev5"
    "DetectCall Qr \<notin> set ev3" "DetectCall Hazmat \<notin> set ev4"
    "AnnotateCall Qr \<notin> set ev3" "AnnotateCall Hazmat \<notin> set ev4"
    using hev qev hse qse fe by auto
  show "(DetectCall k \<in> set evs) = (enabled k w' \<and> constructed k w')"
    using d hsc qsc by (cases k) (auto simp: e enabled_def constructed_def)
  show "AnnotateCall k \<in> set evs \<longrightarrow> enabled k w' \<and> constructed k w'"
    using d hsc qsc by (cases k) (auto simp: e enabled_def constructed_def)
  have 5: "findings_of k ev5 = []"
    using fps_update_cases [OF u] by (cases k) (auto split: if_splits)
  have fo: "findings_of k evs = [case k of Hazmat \<Rightarrow> hz | Qr \<Rightarrow> qz]"
    using quiet_filter [OF pre, of k] 5
    by (cases k) (simp_all add: e findings_of_append del: set_append)
  have "\<not> (enabled k w' \<and> constructed k w') \<longrightarrow> (case k of Hazmat \<Rightarrow> hz | Qr \<Rightarrow> qz) = []"
    using hs qs hazmat_stage_off [of "enable_hazmat w'" w' f0] qr_stage_off [of "enable_qr w'" w' f1]
    by (cases k) (auto simp: enabled_def constructed_def)
  then show "\<exists>xs. findings_of k evs = [xs] \<and> (\<not> (enabled k w' \<and> constructed k w') \<longrightarrow> xs = [])"
    using fo by blast
qed

subsection \<open>One pass of the loop\<close>

lemma iteration_paced:
  "py_lt (py_sub (time_now env) (last_frame_time v)) (min_frame_interval w) \<Longrightarrow>
     iteration env (w, v) = ([Msleep 5], consumer_writes env w, v)"
  by (simp add: iteration_def Let_def)

lemma iteration_read_failed:
  "\<not> py_lt (py_sub (time_now env) (last_frame_time v)) (min_frame_interval w) \<Longrightarrow>
   (\<forall>frame. client_read (cap_read env) (wclient w) \<noteq> (True, Some frame)) \<Longrightarrow>
     iteration env (w, v) = ([ClientRead, Msleep 10], consumer_writes env w, v)"
  by (auto simp: iteration_def Let_def split: prod.splits option.splits)

lemma iteration_accepted:
  "accepts env w v frame \<Longrightarrow>
     iteration env (w, v) =
       (ClientRead # fst (process_frame env (time_now env) frame (consumer_writes env w, v)),
        snd (process_frame env (time_now env) frame (consumer_writes env w, v)))"
  by (auto simp: iteration_def accepts_def Let_def split: prod.splits option.splits)

lemma iteration_cases:
  obtains
    (paced) "py_lt (py_sub (time_now env) (last_frame_time v)) (min_frame_interval w)"
      "iteration env (w, v) = ([Msleep 5], consumer_writes env w, v)"
  | (read_failed) "\<not> py_lt (py_sub (time_now env) (last_frame_time v)) (min_frame_interval w)"
      "\<forall>frame. \<not> accepts env w v frame"
      "iteration env (w, v) = ([ClientRead, Msleep 10], consumer_writes env w, v)"
  | (accepted) frame evs w' v' where "accepts env w v frame"
      "process_frame env (time_now env) frame (consumer_writes env w, v) = (evs, w', v')"
      "iteration env (w, v) = (ClientRead # evs, w', v')"
proof (cases "py_lt (py_sub (time_now env) (last_frame_time v)) (min_frame_interval w)")
  case True
  then show ?thesis using paced iteration_paced by blast
next
  case late: False
  show ?thesis
  proof (cases "\<exists>frame. client_read (cap_read env) (wclient w) = (True, Some frame)")
    case True
    then obtain frame where "accepts env w v frame"
      using late by (auto simp: accepts_def)
    then show ?thesis
      using accepted [of frame] iteration_accepted [of env w v frame]
      by (cases "process_frame env (time_now env) frame (consumer_writes env w, v)") auto
  next
    case False
    then have "\<forall>frame. \<not> accepts env w v frame" by (simp add: accepts_def)
    then show ?thesis
      using read_failed iteration_read_failed late False by blast
  qed
qed

lemma iteration_fields:
  assumes "iteration env (w, v) = (evs, w', v')"
  shows "min_frame_interval w' = min_frame_interval w" "wclient w' = wclient w"
    "running w' = running w" "hazmat_factory w' = hazmat_factory w"
    "qr_factory w' = qr_factory w"
  using assms
  by (cases env w v rule: iteration_cases; auto dest: process_frame_fields)+

lemma iteration_frame_ready:
  assumes "iteration env (w, v) = (evs, w', v')"
  shows "if list_ex is_frame_ready evs
         then \<not> py_lt (py_sub (time_now env) (last_frame_time v)) (min_frame_interval w)
              \<and> last_frame_time v' = time_now env
         else v' = v"
proof (cases env w v rule: iteration_cases)
  case (accepted frame evs0 w0 v0)
  then have e: "evs = ClientRead # evs0" "v' = v0" using assms by auto
  from process_frame_shape [OF accepted(2)] have "list_ex is_frame_ready evs0"
    by (auto simp: list_ex_iff)
  moreover have "last_frame_time v0 = time_now env"
    using process_frame_fields(6) [OF accepted(2)] .
  ultimately show ?thesis using e accepted(1) by (simp add: accepts_def)
qed (use assms in auto)


subsection \<open>The loop\<close>

lemma loop_stop:
  "stop_called env \<or> \<not> running w \<Longrightarrow>
     loop (w, v) (env # envs) = ([], (w\<lparr>running := False\<rparr>, v), True)"
  by simp

lemma loop_step:
  "\<not> stop_called env \<Longrightarrow> running w \<Longrightarrow> iteration env (w, v) = (evs, w', v') \<Longrightarrow>
   loop (w', v') envs = (tr, s, b) \<Longrightarrow>
     loop (w, v) (env # envs) = ((time_now env, evs) # tr, s, b)"
  by simp

text \<open>An invariant of the state and a property of every pass carry over to the loop.\<close>

lemma loop_invariant:
  assumes "loop (w, v) envs = (tr, (w', v'), b)"
    and "I w v"
    and step: "\<And>env w v evs w1 v1. env \<in> set envs \<Longrightarrow> I w v \<Longrightarrow> \<not> stop_called env \<Longrightarrow>
          running w \<Longrightarrow> iteration env (w, v) = (evs, w1, v1) \<Longrightarrow> I w1 v1 \<and> Q evs"
    and stop: "\<And>w v. I w v \<Longrightarrow> I (w\<lparr>running := False\<rparr>) v"
  shows "I w' v' \<and> (\<forall>p\<in>set tr. Q (snd p))"
  using assms(1,2,3)
proof (induction envs arbitrary: w v tr)
  case Nil
  then show ?case by simp
next
  case (Cons env envs)
  show ?case
  proof (cases "stop_called env \<or> \<not> running w")
    case True
    with Cons.prems(1,2) stop show ?thesis by auto
  next
    case False
    obtain evs w1 v1 where it: "iteration env (w, v) = (evs, w1, v1)"
      by (cases "iteration env (w, v)") auto
    obtain tr1 where lp: "loop (w1, v1) envs = (tr1, (w', v'), b)" and tr: "tr = (time_now env, evs) # tr1"
      using Cons.prems(1) False it by (auto split: prod.splits)
    have 1: "I w1 v1 \<and> Q evs"
      using Cons.prems(3) [of env w v evs w1 v1] Cons.prems(2) False it by simp
    have "I w' v' \<and> (\<forall>p\<in>set tr1. Q (snd p))"
    proof (rule Cons.IH [OF lp])
      show "I w1 v1" using 1 by simp
      show "\<And>env w v evs w1 v1. env \<in> set envs \<Longrightarrow> I w v \<Longrightarrow> \<not> stop_called env \<Longrightarrow>
          running w \<Longrightarrow> iteration env (w, v) = (evs, w1, v1) \<Longrightarrow> I w1 v1 \<and> Q evs"
        using Cons.prems(3) by (meson list.set_intros(2))
    qed
    then show ?thesis using 1 tr by simp
  qed
qed

lemma loop_fields:
  assumes "loop (w, v) envs = (tr, (w', v'), b)"
  shows "min_frame_interval w' = min_frame_interval w" "wclient w' = wclient w"
    "hazmat_factory w' = hazmat_factory w" "qr_factory w' = qr_factory w"
proof -
  have "(min_frame_interval w' = min_frame_interval w \<and> wclient w' = wclient w
      \<and> hazmat_factory w' = hazmat_factory w \<and> qr_factory w' = qr_factory w)
      \<and> (\<forall>p\<in>set tr. True)"
    by (rule loop_invariant [OF assms, where I = "\<lambda>x y. min_frame_interval x = min_frame_interval w
            \<and> wclient x = wclient w \<and> hazmat_factory x = hazmat_factory w
            \<and> qr_factory x = qr_factory w"])
       (auto dest: iteration_fields)
  then show "min_frame_interval w' = min_frame_interval w" "wclient w' = wclient w"
    "hazmat_factory w' = hazmat_factory w" "qr_factory w' = qr_factory w"
    by simp_all
qed

lemma loop_pacing:
  "loop (w, v) envs = (tr, s, b) \<Longrightarrow>
     paced (min_frame_interval w) (last_frame_time v # accepted_times tr)"
proof (induction envs arbitrary: w v tr s b)
  case Nil
  then show ?case by (simp add: accepted_times_def)
next
  case (Cons env envs)
  show ?case
  proof (cases "stop_called env \<or> \<not> running w")
    case True
    with Cons.prems show ?thesis by (auto simp: accepted_times_def)
  next
    case False
    obtain evs w' v' where it: "iteration env (w, v) = (evs, w', v')"
      by (cases "iteration env (w, v)") auto
    obtain tr' s' b' where lp: "loop (w', v') envs = (tr', s', b')"
      by (cases "loop (w', v') envs") auto
    have tr: "tr = (time_now env, evs) # tr'"
      using Cons.prems False it lp by simp
    have ih: "paced (min_frame_interval w) (last_frame_time v' # accepted_times tr')"
      using Cons.IH [OF lp] iteration_fields(1) [OF it] by simp
    show ?thesis
      using iteration_frame_ready [OF it] ih
      by (auto simp: tr accepted_times_def split: if_splits)
  qed
qed


lemma paced_tail: "paced d (a # ts) \<Longrightarrow> paced d ts"
  by (cases ts) auto


text \<open>The loop of a run whose stream opened.\<close>

lemma run_opened:
  assumes "cap_opens wd"
  obtains tr w3 v3 b where
    "loop (w\<lparr>running := True, wclient := (wclient w)\<lparr>cap := Some (VideoCapture True)\<rparr>\<rparr>,
          \<lparr>last_frame_time = time_frame0 wd, last_fps_time = time_fps0 wd,
           frame_count = 0, fps_avg = Fin 0\<rparr>) (passes wd) = (tr, (w3, v3), b)"
    "in_loop (run wd w) = tr" "returned (run wd w) = b"
    "before_loop (run wd w) = [Opened True ''opened'']"
    "after_loop (run wd w) = (if b then [Release] else [])"
    "wclient (final (run wd w)) = (wclient w)\<lparr>cap := (if b then None else Some (VideoCapture True))\<rparr>"
proof -
  define w2 where "w2 = w\<lparr>running := True, wclient := (wclient w)\<lparr>cap := Some (VideoCapture True)\<rparr>\<rparr>"
  define v where "v = \<lparr>last_frame_time = time_frame0 wd, last_fps_time = time_fps0 wd,
                       frame_count = 0, fps_avg = Fin 0\<rparr>"
  obtain tr w3 v3 b where lp: "loop (w2, v) (passes wd) = (tr, (w3, v3), b)"
    by (cases "loop (w2, v) (passes wd)") auto
  have c: "wclient w3 = (wclient w)\<lparr>cap := Some (VideoCapture True)\<rparr>"
    using loop_fields(2) [OF lp] by (simp add: w2_def)
  have "in_loop (run wd w) = tr" "returned (run wd w) = b"
    "before_loop (run wd w) = [Opened True ''opened'']"
    "after_loop (run wd w) = (if b then [Release] else [])"
    "wclient (final (run wd w)) = (wclient w)\<lparr>cap := (if b then None else Some (VideoCapture True))\<rparr>"
    using assms lp c
    by (auto simp: run_def client_open_def client_close_def Let_def w2_def v_def split: prod.splits)
  then show ?thesis using that lp unfolding w2_def v_def by blast
qed

lemma iteration_publishes:
  assumes "iteration env (w, v) = (evs, w', v')"
  shows "(filter is_publish evs = [] \<and> (\<forall>frame. \<not> accepts env w v frame) \<and> v' = v
          \<and> filter is_fps_ready evs = [])
      \<or> (\<exists>frame a b f1 f2 hz qz pre. accepts env w v frame
           \<and> evs = pre @ [HazmatDet hz, QrDet qz, FrameReady f2] \<and> filter is_publish pre = []
           \<and> hazmat_stage (enable_hazmat w') w' frame = (a, f1, hz)
           \<and> qr_stage (enable_qr w') w' f1 = (b, f2, qz))"
proof (cases env w v rule: iteration_cases)
  case paced
  then have "\<forall>frame. \<not> accepts env w v frame" by (simp add: accepts_def)
  then show ?thesis using paced assms by (auto simp: is_publish_def)
next
  case read_failed
  then show ?thesis using assms by (auto simp: is_publish_def)
next
  case (accepted frame evs0 w0 v0)
  from process_frame_events [OF accepted(2)] obtain pre ev5 f1 f2 hz qz a b where
    e: "evs0 = pre @ ev5 @ [HazmatDet hz, QrDet qz, FrameReady f2]" and
    p: "set pre \<subseteq> range FactoryCall \<union> range DetectCall \<union> range AnnotateCall \<union> range Print" and
    hs: "hazmat_stage (enable_hazmat w0) w0 frame = (a, f1, hz)" and
    qs: "qr_stage (enable_qr w0) w0 f1 = (b, f2, qz)" and
    u: "fps_update (time_now env)
          (v\<lparr>frame_count := frame_count v + 1, last_frame_time := time_now env\<rparr>) = (ev5, v0)"
    by blast
  have 5: "filter is_publish ev5 = []"
    using fps_update_cases [OF u] by (auto simp: is_publish_def split: if_splits)
  have "evs = (ClientRead # pre @ ev5) @ [HazmatDet hz, QrDet qz, FrameReady f2]"
    "filter is_publish (ClientRead # pre @ ev5) = []" "w' = w0"
    using accepted(3) assms e quiet_filter [OF p, of Hazmat] 5 by (auto simp: is_publish_def)
  then show ?thesis using accepted(1) hs qs by blast
qed

lemma iteration_no_release:
  assumes "iteration env (w, v) = (evs, w', v')"
  shows "Release \<notin> set evs"
proof (cases env w v rule: iteration_cases)
  case (accepted frame evs0 w0 v0)
  then show ?thesis using process_frame_publishes [OF accepted(2)] assms by auto
qed (use assms in auto)

lemma loop_no_release:
  assumes "loop (w, v) envs = (tr, (w', v'), b)"
  shows "Release \<notin> set (events_of tr)"
proof -
  have "True \<and> (\<forall>p\<in>set tr. Release \<notin> set (snd p))"
    by (rule loop_invariant [OF assms, where I = "\<lambda>x y. True"])
       (auto dest: iteration_no_release)
  then show ?thesis by (auto simp: events_of_def)
qed

lemma loop_publishes:
  assumes "loop (w, v) envs = (tr, (w', v'), b)"
  shows "\<forall>p\<in>set tr. filter is_publish (snd p) = []
       \<or> (\<exists>hz qz f. filter is_publish (snd p) = [HazmatDet hz, QrDet qz, FrameReady f])"
proof -
  have "True \<and> (\<forall>p\<in>set tr. filter is_publish (snd p) = []
       \<or> (\<exists>hz qz f. filter is_publish (snd p) = [HazmatDet hz, QrDet qz, FrameReady f]))"
  proof (rule loop_invariant [OF assms, where I = "\<lambda>x y. True"])
    fix env w v evs w1 v1
    assume "iteration env (w, v) = (evs, w1, v1)"
    from iteration_publishes [OF this]
    show "True \<and> (filter is_publish evs = []
       \<or> (\<exists>hz qz f. filter is_publish evs = [HazmatDet hz, QrDet qz, FrameReady f]))"
      by (auto simp: is_publish_def)
  qed simp_all
  then show ?thesis by simp
qed

text \<open>While reads fail and nobody stops the worker, the loop only sleeps and retries.\<close>

lemma read_fails_no_frame:
  "read_fails env \<Longrightarrow> client_read (cap_read env) c \<noteq> (True, Some frame)"
  by (cases "cap_read env") (auto simp: read_fails_def client_read_def split: option.splits)

lemma loop_read_failures:
  assumes "running w" and "\<forall>env\<in>set envs. \<not> stop_called env \<and> read_fails env"
  shows "\<exists>tr w'. loop (w, v) envs = (tr, (w', v), False)
      \<and> running w' \<and> min_frame_interval w' = min_frame_interval w \<and> length tr = length envs
      \<and> (\<forall>p\<in>set tr. snd p = [Msleep 5] \<or> snd p = [ClientRead, Msleep 10])
      \<and> ((\<forall>env\<in>set envs. \<not> py_lt (py_sub (time_now env) (last_frame_time v)) (min_frame_interval w))
           \<longrightarrow> map snd tr = replicate (length envs) [ClientRead, Msleep 10])"
  using assms
proof (induction envs arbitrary: w)
  case Nil
  then show ?case by simp
next
  case (Cons env envs)
  let ?w1 = "consumer_writes env w"
  have it: "iteration env (w, v) = ([Msleep 5], ?w1, v)
        \<or> iteration env (w, v) = ([ClientRead, Msleep 10], ?w1, v)"
    using Cons.prems(2) iteration_paced [of env v w]
      iteration_read_failed [of env v w] read_fails_no_frame [of env "wclient w"]
    by auto
  have it2: "\<not> py_lt (py_sub (time_now env) (last_frame_time v)) (min_frame_interval w) \<Longrightarrow>
      iteration env (w, v) = ([ClientRead, Msleep 10], ?w1, v)"
    using Cons.prems(2) iteration_read_failed [of env v w] read_fails_no_frame [of env "wclient w"]
    by auto
  have "running ?w1" using Cons.prems(1) by simp
  from Cons.IH [OF this] Cons.prems(2)
  obtain tr w' where
    lp: "loop (?w1, v) envs = (tr, (w', v), False)" and
    r: "running w'" "min_frame_interval w' = min_frame_interval w" "length tr = length envs"
      "\<forall>p\<in>set tr. snd p = [Msleep 5] \<or> snd p = [ClientRead, Msleep 10]"
      "(\<forall>env\<in>set envs. \<not> py_lt (py_sub (time_now env) (last_frame_time v)) (min_frame_interval w))
           \<longrightarrow> map snd tr = replicate (length envs) [ClientRead, Msleep 10]"
    by auto
  obtain evs where e: "iteration env (w, v) = (evs, ?w1, v)"
    "evs = [Msleep 5] \<or> evs = [ClientRead, Msleep 10]"
    using it by auto
  have "loop (w, v) (env # envs) = ((time_now env, evs) # tr, (w', v), False)"
    using loop_step [OF _ _ e(1) lp] Cons.prems by simp
  moreover have "(\<forall>e\<in>set (env # envs). \<not> py_lt (py_sub (time_now e) (last_frame_time v)) (min_frame_interval w))
           \<longrightarrow> map snd ((time_now env, evs) # tr) = replicate (length (env # envs)) [ClientRead, Msleep 10]"
    using r(5) it2 e(1) by auto
  ultimately show ?case using r e(2) by auto
qed

lemma loop_append:
  "loop s envs = (tr, s', False) \<Longrightarrow>
     loop s (envs @ rest) = (tr @ fst (loop s' rest), snd (loop s' rest))"
proof (induction envs arbitrary: s tr)
  case Nil
  then show ?case by simp
next
  case (Cons env envs)
  obtain w v where s: "s = (w, v)" by (cases s)
  have go: "\<not> (stop_called env \<or> \<not> running w)"
    using Cons.prems s by (auto split: if_splits)
  obtain evs s1 where it: "iteration env (w, v) = (evs, s1)"
    by (cases "iteration env (w, v)") auto
  obtain tr1 where lp: "loop s1 envs = (tr1, s', False)" and tr: "tr = (time_now env, evs) # tr1"
    using Cons.prems s go it by (auto split: prod.splits)
  show ?case
    using Cons.IH [OF lp] go it s tr by (auto split: prod.splits)
qed

subsection \<open>The stage slots across passes\<close>

lemma quiet_pass_slot:
  "evs = [Msleep 5] \<or> evs = [ClientRead, Msleep 10] \<Longrightarrow>
     FactoryCall k \<notin> set evs \<and> DetectCall k \<notin> set evs \<and> AnnotateCall k \<notin> set evs
     \<and> findings_of k evs = [] \<and> \<not> list_ex is_frame_ready evs"
  by (cases k) auto

lemma iteration_slot:
  assumes "iteration env (w, v) = (evs, w', v')"
  shows "FactoryCall k \<in> set evs \<longrightarrow>
           enabled k (consumer_writes env w) \<and> \<not> constructed k w \<and> has_factory k w"
    and "enabled k w' \<longrightarrow> enabled k (consumer_writes env w)"
    and "constructed k w' \<longrightarrow> constructed k w \<or> enabled k (consumer_writes env w) \<and> has_factory k w"
    and "\<not> has_factory k w \<longrightarrow> enabled k w' = enabled k (consumer_writes env w)"
    and "DetectCall k \<in> set evs \<or> AnnotateCall k \<in> set evs \<longrightarrow> enabled k w' \<and> constructed k w'"
    and "has_factory k w' = has_factory k w"
    and "if list_ex is_frame_ready evs
         then \<exists>xs. findings_of k evs = [xs] \<and> (\<not> (enabled k w' \<and> constructed k w') \<longrightarrow> xs = [])
         else findings_of k evs = []"
    and "constructed k w \<longrightarrow> constructed k w'"
proof -
  have "(FactoryCall k \<in> set evs \<longrightarrow>
           enabled k (consumer_writes env w) \<and> \<not> constructed k w \<and> has_factory k w)
    \<and> (enabled k w' \<longrightarrow> enabled k (consumer_writes env w))
    \<and> (constructed k w' \<longrightarrow> constructed k w \<or> enabled k (consumer_writes env w) \<and> has_factory k w)
    \<and> (\<not> has_factory k w \<longrightarrow> enabled k w' = enabled k (consumer_writes env w))
    \<and> (DetectCall k \<in> set evs \<or> AnnotateCall k \<in> set evs \<longrightarrow> enabled k w' \<and> constructed k w')
    \<and> has_factory k w' = has_factory k w
    \<and> (if list_ex is_frame_ready evs
         then \<exists>xs. findings_of k evs = [xs] \<and> (\<not> (enabled k w' \<and> constructed k w') \<longrightarrow> xs = [])
         else findings_of k evs = [])
    \<and> (constructed k w \<longrightarrow> constructed k w')"
  proof (cases env w v rule: iteration_cases)
    case paced
    then have e: "evs = [Msleep 5]" "w' = consumer_writes env w" using assms by auto
    show ?thesis using quiet_pass_slot [of evs k] e by simp
  next
    case read_failed
    then have e: "evs = [ClientRead, Msleep 10]" "w' = consumer_writes env w" using assms by auto
    show ?thesis using quiet_pass_slot [of evs k] e by simp
  next
    case (accepted frame evs0 w0 v0)
    then have e: "evs = ClientRead # evs0" "w' = w0" using assms by auto
    note s = process_frame_slot [OF accepted(2), of k]
    have hf: "has_factory k w0 = has_factory k w"
      using process_frame_fields(4,5) [OF accepted(2)]
      by (cases k) (simp_all add: has_factory_def)
    have fr: "list_ex is_frame_ready evs"
      using process_frame_shape [OF accepted(2)] e by (auto simp: list_ex_iff)
    have fo: "findings_of k evs = findings_of k evs0"
      unfolding e by (cases k) simp_all
    show ?thesis
      using s hf fr unfolding fo e(2) by (auto simp: e(1))
  qed
  then show "FactoryCall k \<in> set evs \<longrightarrow>
           enabled k (consumer_writes env w) \<and> \<not> constructed k w \<and> has_factory k w"
    and "enabled k w' \<longrightarrow> enabled k (consumer_writes env w)"
    and "constructed k w' \<longrightarrow> constructed k w \<or> enabled k (consumer_writes env w) \<and> has_factory k w"
    and "\<not> has_factory k w \<longrightarrow> enabled k w' = enabled k (consumer_writes env w)"
    and "DetectCall k \<in> set evs \<or> AnnotateCall k \<in> set evs \<longrightarrow> enabled k w' \<and> constructed k w'"
    and "has_factory k w' = has_factory k w"
    and "if list_ex is_frame_ready evs
         then \<exists>xs. findings_of k evs = [xs] \<and> (\<not> (enabled k w' \<and> constructed k w') \<longrightarrow> xs = [])
         else findings_of k evs = []"
    and "constructed k w \<longrightarrow> constructed k w'"
    by blast+
qed

lemma stop_slot [simp]:
  "enabled k (w\<lparr>running := False\<rparr>) = enabled k w"
  "constructed k (w\<lparr>running := False\<rparr>) = constructed k w"
  "has_factory k (w\<lparr>running := False\<rparr>) = has_factory k w"
  by (cases k; simp add: enabled_def constructed_def has_factory_def)+

text \<open>A disabled stage that the consumer does not switch on is left alone.\<close>

lemma loop_disabled:
  assumes "loop (w, v) envs = (tr, (w', v'), b)"
    and "\<not> enabled k w" and "\<forall>e\<in>set envs. consumer_write k e \<noteq> Some True"
  shows "\<not> enabled k w'" "constructed k w' = constructed k w" "has_factory k w' = has_factory k w"
    "FactoryCall k \<notin> set (events_of tr)" "DetectCall k \<notin> set (events_of tr)"
    "AnnotateCall k \<notin> set (events_of tr)"
proof -
  have "(\<not> enabled k w' \<and> constructed k w' = constructed k w \<and> has_factory k w' = has_factory k w)
      \<and> (\<forall>p\<in>set tr. FactoryCall k \<notin> set (snd p) \<and> DetectCall k \<notin> set (snd p)
            \<and> AnnotateCall k \<notin> set (snd p))"
  proof (rule loop_invariant [OF assms(1), where I = "\<lambda>x y. \<not> enabled k x
        \<and> constructed k x = constructed k w \<and> has_factory k x = has_factory k w"])
    fix env x y evs x1 y1
    assume env: "env \<in> set envs"
      and i: "\<not> enabled k x \<and> constructed k x = constructed k w \<and> has_factory k x = has_factory k w"
      and it: "iteration env (x, y) = (evs, x1, y1)"
    have off: "\<not> enabled k (consumer_writes env x)"
      using i assms(3) env by (cases "consumer_write k env") (auto simp: consumer_writes_enabled)
    show "(\<not> enabled k x1 \<and> constructed k x1 = constructed k w \<and> has_factory k x1 = has_factory k w)
        \<and> FactoryCall k \<notin> set evs \<and> DetectCall k \<notin> set evs \<and> AnnotateCall k \<notin> set evs"
      using iteration_slot [OF it, of k] off i by auto
  qed (use assms(2) in simp_all)
  then show "\<not> enabled k w'" "constructed k w' = constructed k w" "has_factory k w' = has_factory k w"
    "FactoryCall k \<notin> set (events_of tr)" "DetectCall k \<notin> set (events_of tr)"
    "AnnotateCall k \<notin> set (events_of tr)"
    by (auto simp: events_of_def)
qed

text \<open>A stage with no factory and no object is never constructed or invoked.\<close>

lemma loop_no_factory:
  assumes "loop (w, v) envs = (tr, (w', v'), b)"
    and "\<not> has_factory k w" and "\<not> constructed k w"
  shows "\<not> constructed k w'" "\<not> has_factory k w'"
    "FactoryCall k \<notin> set (events_of tr)" "DetectCall k \<notin> set (events_of tr)"
    "AnnotateCall k \<notin> set (events_of tr)"
    "\<forall>p\<in>set tr. if list_ex is_frame_ready (snd p) then findings_of k (snd p) = [[]]
                 else findings_of k (snd p) = []"
proof -
  have "(\<not> constructed k w' \<and> \<not> has_factory k w')
      \<and> (\<forall>p\<in>set tr. FactoryCall k \<notin> set (snd p) \<and> DetectCall k \<notin> set (snd p)
            \<and> AnnotateCall k \<notin> set (snd p)
            \<and> (if list_ex is_frame_ready (snd p) then findings_of k (snd p) = [[]]
                else findings_of k (snd p) = []))"
  proof (rule loop_invariant [OF assms(1), where I = "\<lambda>x y. \<not> constructed k x \<and> \<not> has_factory k x"])
    fix env x y evs x1 y1
    assume i: "\<not> constructed k x \<and> \<not> has_factory k x"
      and it: "iteration env (x, y) = (evs, x1, y1)"
    show "(\<not> constructed k x1 \<and> \<not> has_factory k x1)
        \<and> FactoryCall k \<notin> set evs \<and> DetectCall k \<notin> set evs \<and> AnnotateCall k \<notin> set evs
        \<and> (if list_ex is_frame_ready evs then findings_of k evs = [[]] else findings_of k evs = [])"
      using iteration_slot [OF it, of k] i by (auto split: if_splits)
  qed (use assms(2,3) in simp_all)
  then show "\<not> constructed k w'" "\<not> has_factory k w'"
    "FactoryCall k \<notin> set (events_of tr)" "DetectCall k \<notin> set (events_of tr)"
    "AnnotateCall k \<notin> set (events_of tr)"
    "\<forall>p\<in>set tr. if list_ex is_frame_ready (snd p) then findings_of k (snd p) = [[]]
                 else findings_of k (snd p) = []"
    by (auto simp: events_of_def)
qed

lemma loop_flag_kept:
  assumes "loop (w, v) envs = (tr, (w', v'), b)"
    and "\<not> has_factory k w" and "\<forall>e\<in>set envs. consumer_write k e = None"
  shows "enabled k w' = enabled k w"
proof -
  have "(enabled k w' = enabled k w \<and> \<not> has_factory k w') \<and> (\<forall>p\<in>set tr. True)"
  proof (rule loop_invariant [OF assms(1), where I = "\<lambda>x y. enabled k x = enabled k w
        \<and> \<not> has_factory k x"])
    fix env x y evs x1 y1
    assume env: "env \<in> set envs"
      and i: "enabled k x = enabled k w \<and> \<not> has_factory k x"
      and it: "iteration env (x, y) = (evs, x1, y1)"
    have "enabled k (consumer_writes env x) = enabled k x"
      using assms(3) env by (simp add: consumer_writes_enabled)
    then show "(enabled k x1 = enabled k w \<and> \<not> has_factory k x1) \<and> True"
      using iteration_slot(4,6) [OF it, of k] i by simp
  qed (use assms(2) in simp_all)
  then show ?thesis by simp
qed

subsection \<open>Float arithmetic\<close>


lemma rnd_not_nan: "rnd x \<noteq> NaN"
  by (simp add: rnd_def Let_def)

text \<open>The roundings met at the concrete inputs.\<close>

lemma rnd_values:
  "rnd 1 = Fin 1"
  "rnd 2 = Fin 2"
  "rnd (1 / 16) = Fin (1 / 16)"
  "rnd (1 / 8) = Fin (1 / 8)"
  "rnd (1 / 4) = Fin (1 / 4)"
  by code_simp+

lemma rnd_third: "rnd (1 / 3) = Fin (6004799503160661 / 18014398509481984)"
  by code_simp

lemma rnd_epoch:
  "rnd (274877906944 / 16492690145295) = Fin (69905 / 4194304)"
  "rnd (69905 / 4194304) = Fin (69905 / 4194304)"
  by code_simp+


subsection \<open>Pacing\<close>

lemma worker_init_interval:
  assumes "worker_init url hf qf R = Inr w0"
  shows "min_frame_interval w0 = ieee_div (Fin 1) R" and "R \<noteq> Fin 0"
  using assms
  by (auto simp: worker_init_def py_truediv_def split: if_splits sum.splits)

text \<open>
  C1, as the code has it. For a worker built with a target rate \<open>R > 0\<close> the stored interval
  is the double \<open>1.0 / R\<close>. Between any two consecutive accepted-frame timestamps of a run,
  the difference as the loop computes it (the double \<open>current_time - last_frame_time\<close>) is
  not below that stored double. A pass that finds the computed difference below the stored
  interval does nothing but \<open>msleep(5)\<close>: it does not read the capture and leaves the loop
  variables as they are. A pass that publishes a frame found the computed difference not
  below the stored interval and records its own clock value as the new time of the last
  accepted frame.
\<close>

theorem C1_pacing:
  assumes "py_lt (Fin 0) R" and "worker_init url hf qf R = Inr w0"
  shows "min_frame_interval w0 = ieee_div (Fin 1) R
    \<and> paced (min_frame_interval w0) (accepted_times (in_loop (run wd w0)))
    \<and> (\<forall>env w v. min_frame_interval w = min_frame_interval w0
          \<and> py_lt (py_sub (time_now env) (last_frame_time v)) (min_frame_interval w0)
        \<longrightarrow> iteration env (w, v) = ([Msleep 5], consumer_writes env w, v))
    \<and> (\<forall>env w v evs w' v'. min_frame_interval w = min_frame_interval w0
          \<and> iteration env (w, v) = (evs, w', v') \<and> list_ex is_frame_ready evs
        \<longrightarrow> \<not> py_lt (py_sub (time_now env) (last_frame_time v)) (min_frame_interval w0)
            \<and> last_frame_time v' = time_now env)"
proof -
  have m: "min_frame_interval w0 = ieee_div (Fin 1) R"
    using worker_init_interval(1) [OF assms(2)] .
  have "paced (min_frame_interval w0) (accepted_times (in_loop (run wd w0)))"
  proof (cases "cap_opens wd")
    case False
    then show ?thesis by (simp add: run_def client_open_def Let_def accepted_times_def)
  next
    case True
    then obtain tr w3 v3 b where
      lp: "loop (w0\<lparr>running := True, wclient := (wclient w0)\<lparr>cap := Some (VideoCapture True)\<rparr>\<rparr>,
          \<lparr>last_frame_time = time_frame0 wd, last_fps_time = time_fps0 wd,
           frame_count = 0, fps_avg = Fin 0\<rparr>) (passes wd) = (tr, (w3, v3), b)"
      and tr: "in_loop (run wd w0) = tr"
      by (rule run_opened)
    show ?thesis
      using loop_pacing [OF lp] paced_tail by (auto simp: tr)
  qed
  moreover have "\<forall>env w v. min_frame_interval w = min_frame_interval w0
          \<and> py_lt (py_sub (time_now env) (last_frame_time v)) (min_frame_interval w0)
        \<longrightarrow> iteration env (w, v) = ([Msleep 5], consumer_writes env w, v)"
    by (simp add: iteration_paced)
  moreover have "\<forall>env w v evs w' v'. min_frame_interval w = min_frame_interval w0
          \<and> iteration env (w, v) = (evs, w', v') \<and> list_ex is_frame_ready evs
        \<longrightarrow> \<not> py_lt (py_sub (time_now env) (last_frame_time v)) (min_frame_interval w0)
            \<and> last_frame_time v' = time_now env"
    using iteration_frame_ready by fastforce
  ultimately show ?thesis using m by blast
qed

lemmas eval_defs =
  iteration_def consumer_writes_def client_read_def process_frame_def construct_hazmat_def
  construct_qr_def hazmat_stage_def qr_stage_def fps_update_def py_lt_def py_ge_def
  py_float_def rnd_values Let_def

lemma cam_run_value:
  "in_loop (run cam_world idle_worker) =
     [(Fin 1, [ClientRead, FpsReady (Fin 1), HazmatDet [], QrDet [], FrameReady [10, 20, 30]]),
      (Fin (17 / 16), [Msleep 5]),
      (Fin (9 / 8), [ClientRead, HazmatDet [], QrDet [], FrameReady [10, 20, 30]])]"
  "returned (run cam_world idle_worker)"
  by (simp_all add: run_def cam_world_def idle_worker_def cam_worker_def client_init_def
      client_open_def client_close_def pass_at_def eval_defs)

theorem C1_pacing_witness:
  "py_lt (Fin 0) (Fin 8)
   \<and> worker_init ''http://192.168.4.1:81/stream'' (Some Callable) (Some Callable) (Fin 8)
       = Inr idle_worker
   \<and> paced (Fin (1 / 8)) (accepted_times (in_loop (run cam_world idle_worker)))
   \<and> accepted_times (in_loop (run cam_world idle_worker)) = [Fin 1, Fin (9 / 8)]"
proof -
  have p: "py_lt (Fin 0) (Fin 8)"
    by (simp add: py_lt_def)
  have i: "worker_init ''http://192.168.4.1:81/stream'' (Some Callable) (Some Callable) (Fin 8)
       = Inr idle_worker"
    by (simp add: worker_init_def py_truediv_def rnd_values idle_worker_def cam_worker_def
        client_init_def)
  have a: "accepted_times (in_loop (run cam_world idle_worker)) = [Fin 1, Fin (9 / 8)]"
    by (simp add: cam_run_value accepted_times_def)
  have m: "min_frame_interval idle_worker = Fin (1 / 8)"
    by (simp add: idle_worker_def cam_worker_def)
  have "paced (min_frame_interval idle_worker) (accepted_times (in_loop (run cam_world idle_worker)))"
    using C1_pacing [OF p i, of cam_world] by blast
  then have "paced (Fin (1 / 8)) (accepted_times (in_loop (run cam_world idle_worker)))"
    unfolding m .
  then show ?thesis
    using p i a by blast
qed

text \<open>
  The claim as stated, with the exact \<open>1 / R\<close>, fails. The stored interval is the rounded
  quotient, which can lie below \<open>1 / R\<close>: for the rate below it is \<open>69905 / 2^22\<close>, and two
  frames accepted at clock values exactly that far apart are closer than \<open>1 / R\<close>.
\<close>

theorem C1_rounding_counterexample:
  "worker_init ''http://192.168.4.1:81/stream'' None None (Fin epoch_rate) = Inr epoch_worker
   \<and> 0 < epoch_rate
   \<and> accepted_times (in_loop (run epoch_world epoch_worker))
       = [Fin 1700000001, Fin (7130316804264209 / 4194304)]
   \<and> 7130316804264209 / 4194304 - 1700000001 < 1 / epoch_rate"
proof -
  have i: "worker_init ''http://192.168.4.1:81/stream'' None None (Fin epoch_rate) = Inr epoch_worker"
    by (simp add: worker_init_def py_truediv_def epoch_rate_def rnd_epoch epoch_worker_def)
  have r: "in_loop (run epoch_world epoch_worker) =
     [(Fin 1700000001,
       [ClientRead, FpsReady (Fin 1), HazmatDet [], QrDet [], FrameReady [10, 20, 30]]),
      (Fin (7130316804264209 / 4194304),
       [ClientRead, HazmatDet [], QrDet [], FrameReady [10, 20, 30]])]"
    by (simp add: run_def epoch_world_def epoch_worker_def client_init_def
        client_open_def client_close_def pass_at_def eval_defs rnd_epoch)
  have a: "accepted_times (in_loop (run epoch_world epoch_worker))
       = [Fin 1700000001, Fin (7130316804264209 / 4194304)]"
    by (simp add: r accepted_times_def)
  have "(0::rat) < epoch_rate" "7130316804264209 / 4194304 - 1700000001 < 1 / epoch_rate"
    by (simp_all add: epoch_rate_def)
  then show ?thesis using i a by blast
qed

subsection \<open>Throughput\<close>





subsection \<open>Read failures\<close>

text \<open>
  C7. Take a started worker and any sequence of passes in which nobody calls \<open>stop()\<close> and
  every read fails. The loop makes all of these passes and is still looping after the last
  one, with its loop variables untouched. Each pass either waits for the pacing interval
  (\<open>msleep(5)\<close>) or reads, fails and backs off (\<open>msleep(10)\<close>); no pass publishes a frame,
  findings or a throughput sample. When the pacing interval has elapsed at each of the
  passes, each of them is a read followed by \<open>msleep(10)\<close>. Whatever passes follow are then
  handled from the state reached, the wait being the only effect of the failures.
\<close>

theorem C7_read_failures:
  assumes "running w" and "\<forall>env\<in>set envs. \<not> stop_called env \<and> read_fails env"
  shows "\<exists>tr w'. loop (w, v) envs = (tr, (w', v), False)
      \<and> running w' \<and> length tr = length envs
      \<and> (\<forall>p\<in>set tr. snd p = [Msleep 5] \<or> snd p = [ClientRead, Msleep 10])
      \<and> filter is_publish (events_of tr) = [] \<and> filter is_fps_ready (events_of tr) = []
      \<and> ((\<forall>env\<in>set envs. \<not> py_lt (py_sub (time_now env) (last_frame_time v)) (min_frame_interval w))
           \<longrightarrow> map snd tr = replicate (length envs) [ClientRead, Msleep 10])
      \<and> (\<forall>rest. loop (w, v) (envs @ rest)
                  = (tr @ fst (loop (w', v) rest), snd (loop (w', v) rest)))"
proof -
  from loop_read_failures [OF assms, of v] obtain tr w' where
    lp: "loop (w, v) envs = (tr, (w', v), False)" and
    r: "running w'" "length tr = length envs"
      "\<forall>p\<in>set tr. snd p = [Msleep 5] \<or> snd p = [ClientRead, Msleep 10]"
      "(\<forall>env\<in>set envs. \<not> py_lt (py_sub (time_now env) (last_frame_time v)) (min_frame_interval w))
           \<longrightarrow> map snd tr = replicate (length envs) [ClientRead, Msleep 10]"
    by blast
  have "\<forall>p\<in>set tr. \<forall>x\<in>set (snd p). \<not> is_publish x \<and> \<not> is_fps_ready x"
    using r(3) by (fastforce simp: is_publish_def)
  then have q: "filter is_publish (events_of tr) = []" "filter is_fps_ready (events_of tr) = []"
    by (auto simp: events_of_def filter_empty_conv)
  have "\<forall>rest. loop (w, v) (envs @ rest)
                  = (tr @ fst (loop (w', v) rest), snd (loop (w', v) rest))"
    using loop_append [OF lp] by simp
  then show ?thesis using lp r q by blast
qed

theorem C7_read_failures_witness:
  "running cam_worker
   \<and> \<not> stop_called (no_frame_at 1) \<and> read_fails (no_frame_at 1)
   \<and> \<not> stop_called (no_frame_at 2) \<and> read_fails (no_frame_at 2)
   \<and> (\<exists>tr w'. loop (cam_worker, start_vars) [no_frame_at 1, no_frame_at 2]
                 = (tr, (w', start_vars), False)
        \<and> length tr = 2 \<and> filter is_publish (events_of tr) = [])
   \<and> loop (cam_worker, start_vars) [no_frame_at 1, no_frame_at 2]
       = ([(Fin 1, [ClientRead, Msleep 10]), (Fin 2, [ClientRead, Msleep 10])],
          (cam_worker, start_vars), False)"
proof -
  have h: "running cam_worker"
    "\<forall>env\<in>set [no_frame_at 1, no_frame_at 2]. \<not> stop_called env \<and> read_fails env"
    by (simp_all add: cam_worker_def no_frame_at_def pass_at_def read_fails_def)
  have v: "loop (cam_worker, start_vars) [no_frame_at 1, no_frame_at 2]
       = ([(Fin 1, [ClientRead, Msleep 10]), (Fin 2, [ClientRead, Msleep 10])],
          (cam_worker, start_vars), False)"
    by (simp add: cam_worker_def start_vars_def no_frame_at_def pass_at_def eval_defs)
  from C7_read_failures [OF h, of start_vars] obtain tr w' where
    "loop (cam_worker, start_vars) [no_frame_at 1, no_frame_at 2] = (tr, (w', start_vars), False)"
    "length tr = length [no_frame_at 1, no_frame_at 2]" "filter is_publish (events_of tr) = []"
    by blast
  then have "\<exists>tr w'. loop (cam_worker, start_vars) [no_frame_at 1, no_frame_at 2]
                 = (tr, (w', start_vars), False)
        \<and> length tr = 2 \<and> filter is_publish (events_of tr) = []"
    by simp
  moreover have "\<not> stop_called (no_frame_at 1) \<and> read_fails (no_frame_at 1)
     \<and> \<not> stop_called (no_frame_at 2) \<and> read_fails (no_frame_at 2)"
    using h(2) by simp
  ultimately show ?thesis using h(1) v by blast
qed

subsection \<open>Findings and the frame they describe\<close>

text \<open>
  C6. A pass of the loop either publishes nothing (it accepted no frame), or it accepted a
  frame and its events end with the hazmat findings, then the QR findings, then the
  frame, nothing else being published before them. The three belong together: the hazmat
  findings and the frame handed on are what the hazmat stage returns for the frame read in
  this pass, the QR findings and the published frame are what the QR stage returns for
  the frame handed on. In a run, every pass publishes nothing or exactly such a triple, and
  nothing is published before or after the loop; the worker keeps no findings between
  passes.
\<close>

theorem C6_findings_before_frame:
  assumes "iteration env (w, v) = (evs, w', v')"
  shows "((filter is_publish evs = [] \<and> (\<forall>frame. \<not> accepts env w v frame))
       \<or> (\<exists>frame a b f1 f2 hz qz pre. accepts env w v frame
            \<and> evs = pre @ [HazmatDet hz, QrDet qz, FrameReady f2] \<and> filter is_publish pre = []
            \<and> hazmat_stage (enable_hazmat w') w' frame = (a, f1, hz)
            \<and> qr_stage (enable_qr w') w' f1 = (b, f2, qz)))
    \<and> (\<forall>p\<in>set (in_loop (run wd w0)). filter is_publish (snd p) = []
          \<or> (\<exists>hz qz f. filter is_publish (snd p) = [HazmatDet hz, QrDet qz, FrameReady f]))
    \<and> filter is_publish (before_loop (run wd w0)) = []
    \<and> filter is_publish (after_loop (run wd w0)) = []"
proof -
  have 1: "(filter is_publish evs = [] \<and> (\<forall>frame. \<not> accepts env w v frame))
       \<or> (\<exists>frame a b f1 f2 hz qz pre. accepts env w v frame
            \<and> evs = pre @ [HazmatDet hz, QrDet qz, FrameReady f2] \<and> filter is_publish pre = []
            \<and> hazmat_stage (enable_hazmat w') w' frame = (a, f1, hz)
            \<and> qr_stage (enable_qr w') w' f1 = (b, f2, qz))"
    using iteration_publishes [OF assms] by blast
  have 2: "(\<forall>p\<in>set (in_loop (run wd w0)). filter is_publish (snd p) = []
          \<or> (\<exists>hz qz f. filter is_publish (snd p) = [HazmatDet hz, QrDet qz, FrameReady f]))
    \<and> filter is_publish (before_loop (run wd w0)) = []
    \<and> filter is_publish (after_loop (run wd w0)) = []"
  proof (cases "cap_opens wd")
    case False
    then show ?thesis by (simp add: run_def client_open_def Let_def is_publish_def)
  next
    case True
    then obtain tr w3 v3 b where
      lp: "loop (w0\<lparr>running := True, wclient := (wclient w0)\<lparr>cap := Some (VideoCapture True)\<rparr>\<rparr>,
          \<lparr>last_frame_time = time_frame0 wd, last_fps_time = time_fps0 wd,
           frame_count = 0, fps_avg = Fin 0\<rparr>) (passes wd) = (tr, (w3, v3), b)"
      and tr: "in_loop (run wd w0) = tr"
      and o: "before_loop (run wd w0) = [Opened True ''opened'']"
        "after_loop (run wd w0) = (if b then [Release] else [])"
      by (rule run_opened)
    show ?thesis
      using loop_publishes [OF lp] by (simp add: tr o is_publish_def)
  qed
  show ?thesis using 1 2 by blast
qed

lemma both_stages_pass_value:
  "iteration (pass_at 1) (cam_worker\<lparr>enable_hazmat := True, enable_qr := True\<rparr>, start_vars) =
     ([ClientRead, FactoryCall Hazmat, FactoryCall Qr, DetectCall Hazmat, AnnotateCall Hazmat,
       DetectCall Qr, AnnotateCall Qr, FpsReady (Fin 1), HazmatDet [''flammable (0.87)''],
       QrDet [''robot-7''], FrameReady [10, 20, 30, 255, 7]],
      cam_worker\<lparr>enable_hazmat := True, enable_qr := True, hazmat := Some labelled_hazmat,
                  qr := Some text_qr\<rparr>,
      \<lparr>last_frame_time = Fin 1, last_fps_time = Fin 1, frame_count = 0, fps_avg = Fin 1\<rparr>)"
  by (simp add: cam_worker_def start_vars_def pass_at_def eval_defs labelled_hazmat_def text_qr_def
      hazmat_texts_def qr_texts_of_def)

theorem C6_findings_before_frame_witness:
  "iteration (pass_at 1) (cam_worker\<lparr>enable_hazmat := True, enable_qr := True\<rparr>, start_vars) =
     ([ClientRead, FactoryCall Hazmat, FactoryCall Qr, DetectCall Hazmat, AnnotateCall Hazmat,
       DetectCall Qr, AnnotateCall Qr, FpsReady (Fin 1), HazmatDet [''flammable (0.87)''],
       QrDet [''robot-7''], FrameReady [10, 20, 30, 255, 7]],
      cam_worker\<lparr>enable_hazmat := True, enable_qr := True, hazmat := Some labelled_hazmat,
                  qr := Some text_qr\<rparr>,
      \<lparr>last_frame_time = Fin 1, last_fps_time = Fin 1, frame_count = 0, fps_avg = Fin 1\<rparr>)
   \<and> filter is_publish (before_loop (run cam_world idle_worker)) = []
   \<and> list_all (\<lambda>p. filter is_publish (snd p) = []
          \<or> (\<exists>hz qz f. filter is_publish (snd p) = [HazmatDet hz, QrDet qz, FrameReady f]))
        (in_loop (run cam_world idle_worker))"
proof -
  note t = C6_findings_before_frame [OF both_stages_pass_value, of cam_world idle_worker]
  have "\<forall>p\<in>set (in_loop (run cam_world idle_worker)). filter is_publish (snd p) = []
          \<or> (\<exists>hz qz f. filter is_publish (snd p) = [HazmatDet hz, QrDet qz, FrameReady f])"
    "filter is_publish (before_loop (run cam_world idle_worker)) = []"
    using t by blast+
  then show ?thesis
    using both_stages_pass_value by (simp add: list_all_iff)
qed

subsection \<open>The capture handle\<close>

text \<open>
  C4, as the code has it. \<open>open\<close> always stores a fresh capture object in the client. When
  the stream opened and the loop exits on a stop, \<open>run\<close> ends with \<open>close\<close>: the capture is
  released, exactly once, and the client's handle is cleared. When the stream did not
  open, \<open>run\<close> returns without calling \<open>close\<close>: nothing is released and the client still
  holds the capture object, which reports that it is not opened. So no run that returns
  leaves an opened capture behind, and a run that is still looping holds the opened
  capture and has released nothing.
\<close>

theorem C4_capture_lifetime:
  "(cap_opens wd \<and> returned (run wd w) \<longrightarrow>
      after_loop (run wd w) = [Release]
      \<and> filter (\<lambda>e. e = Release) (trace (run wd w)) = [Release]
      \<and> cap (wclient (final (run wd w))) = None)
   \<and> (\<not> cap_opens wd \<longrightarrow>
      returned (run wd w) \<and> Release \<notin> set (trace (run wd w))
      \<and> cap (wclient (final (run wd w))) = Some (VideoCapture False))
   \<and> (\<not> returned (run wd w) \<longrightarrow>
      cap_opens wd \<and> Release \<notin> set (trace (run wd w))
      \<and> cap (wclient (final (run wd w))) = Some (VideoCapture True))
   \<and> (returned (run wd w) \<longrightarrow> cap (wclient (final (run wd w))) \<noteq> Some (VideoCapture True))"
proof (cases "cap_opens wd")
  case False
  then show ?thesis by (simp add: run_def client_open_def trace_def Let_def)
next
  case True
  then obtain tr w3 v3 b where
    lp: "loop (w\<lparr>running := True, wclient := (wclient w)\<lparr>cap := Some (VideoCapture True)\<rparr>\<rparr>,
        \<lparr>last_frame_time = time_frame0 wd, last_fps_time = time_fps0 wd,
         frame_count = 0, fps_avg = Fin 0\<rparr>) (passes wd) = (tr, (w3, v3), b)"
    and o: "in_loop (run wd w) = tr" "returned (run wd w) = b"
      "before_loop (run wd w) = [Opened True ''opened'']"
      "after_loop (run wd w) = (if b then [Release] else [])"
      "wclient (final (run wd w)) = (wclient w)\<lparr>cap := (if b then None else Some (VideoCapture True))\<rparr>"
    by (rule run_opened)
  have nr: "Release \<notin> set (concat (map snd tr))"
    using loop_no_release [OF lp] by (simp add: events_of_def)
  have nf: "filter (\<lambda>e. e = Release) (concat (map snd tr)) = []"
    using nr unfolding filter_empty_conv by blast
  show ?thesis
    using True nr nf by (simp add: trace_def o del: set_concat)
qed

theorem C4_capture_lifetime_witness:
  "cap_opens cam_world \<and> returned (run cam_world idle_worker)
   \<and> after_loop (run cam_world idle_worker) = [Release]
   \<and> cap (wclient (final (run cam_world idle_worker))) = None"
proof -
  have r: "cap_opens cam_world" "returned (run cam_world idle_worker)"
    by (simp_all add: run_def cam_world_def idle_worker_def cam_worker_def client_init_def
        client_open_def client_close_def pass_at_def eval_defs)
  show ?thesis
    using C4_capture_lifetime [of cam_world idle_worker] r by simp
qed

text \<open>
  The claim as stated fails when the stream does not open: the run returns, no release
  has happened and the client's handle is not cleared.
\<close>

theorem C4_open_failure_counterexample:
  "returned (run dead_world idle_worker)
   \<and> Release \<notin> set (trace (run dead_world idle_worker))
   \<and> cap (wclient (final (run dead_world idle_worker))) = Some (VideoCapture False)"
  by (simp add: run_def dead_world_def cam_world_def idle_worker_def cam_worker_def
      client_init_def client_open_def trace_def Let_def)

subsection \<open>Construction failures\<close>

lemma accepted_pass:
  assumes "accepts env w v frame" and "iteration env (w, v) = (evs, w', v')"
  obtains evs0 where "evs = ClientRead # evs0"
    "process_frame env (time_now env) frame (consumer_writes env w, v) = (evs0, w', v')"
  using iteration_accepted [OF assms(1)] assms(2)
  by (cases "process_frame env (time_now env) frame (consumer_writes env w, v)") auto

text \<open>
  C5. Take a pass that accepts a frame while stage \<open>k\<close> (hazmat or QR) is enabled, has a
  factory and no object yet, and let the factory raise. The pass calls the factory once
  and returns normally: the stage's flag is false afterwards (the consumer reads it so),
  the slot is still empty, and the pass goes on to publish an empty findings list for the
  stage, the other findings and the frame. In the passes that follow, as long as the
  consumer does not write \<open>True\<close> to the flag, the factory is not called and the flag stays
  false; in a later pass that accepts a frame after the consumer has written \<open>True\<close>, the
  factory is called again.
\<close>

theorem C5_factory_raises:
  assumes "accepts env w v frame"
    and "enabled k (consumer_writes env w)" and "\<not> constructed k w" and "has_factory k w"
    and "factory_raises k env"
    and "iteration env (w, v) = (evs, w', v')"
    and "\<forall>e\<in>set envs. consumer_write k e \<noteq> Some True"
    and "loop (w', v') envs = (tr, (w'', v''), b)"
  shows "\<not> enabled k w' \<and> \<not> constructed k w'
    \<and> length (filter (\<lambda>e. e = FactoryCall k) evs) = 1
    \<and> findings_of k evs = [[]]
    \<and> (\<exists>hz qz f. filter is_publish evs = [HazmatDet hz, QrDet qz, FrameReady f])
    \<and> running w' = running w
    \<and> FactoryCall k \<notin> set (events_of tr) \<and> \<not> enabled k w''
    \<and> (\<forall>env2 frame2. consumer_write k env2 = Some True \<and> accepts env2 w'' v'' frame2
          \<longrightarrow> FactoryCall k \<in> set (fst (iteration env2 (w'', v''))))"
proof -
  from accepted_pass [OF assms(1,6)] obtain evs0 where
    e: "evs = ClientRead # evs0" and
    pf: "process_frame env (time_now env) frame (consumer_writes env w, v) = (evs0, w', v')"
    by blast
  note s = process_frame_slot [OF pf, of k]
  have off: "\<not> enabled k w'" "\<not> constructed k w'"
    using s(1,2) assms(2-5) by simp_all
  have m: "FactoryCall k \<in> set evs0"
    using s(3) assms(2-4) by simp
  then have "filter (\<lambda>e. e = FactoryCall k) evs0 \<noteq> []"
    by (auto simp: filter_empty_conv)
  then have one: "length (filter (\<lambda>e. e = FactoryCall k) evs) = 1"
    using s(4) by (cases "filter (\<lambda>e. e = FactoryCall k) evs0") (auto simp: e)
  have fo: "findings_of k evs = [[]]"
    using s(7) off(1) by (cases k) (auto simp: e)
  have pb: "\<exists>hz qz f. filter is_publish evs = [HazmatDet hz, QrDet qz, FrameReady f]"
    using process_frame_publishes [OF pf] by (auto simp: e is_publish_def)
  have rn: "running w' = running w"
    using iteration_fields(3) [OF assms(6)] .
  note d = loop_disabled [OF assms(8) off(1) assms(7)]
  have hf: "has_factory k w''"
    using d(3) s process_frame_fields(4,5) [OF pf] assms(4)
    by (cases k) (simp_all add: has_factory_def)
  have again: "\<forall>env2 frame2. consumer_write k env2 = Some True \<and> accepts env2 w'' v'' frame2
          \<longrightarrow> FactoryCall k \<in> set (fst (iteration env2 (w'', v'')))"
  proof (intro allI impI)
    fix env2 frame2
    assume a: "consumer_write k env2 = Some True \<and> accepts env2 w'' v'' frame2"
    obtain evs2 w2 v2 where it: "iteration env2 (w'', v'') = (evs2, w2, v2)"
      by (cases "iteration env2 (w'', v'')") auto
    from a accepted_pass [OF _ it, of frame2] obtain evs3 where
      e2: "evs2 = ClientRead # evs3" and
      pf2: "process_frame env2 (time_now env2) frame2 (consumer_writes env2 w'', v'') = (evs3, w2, v2)"
      by blast
    have "enabled k (consumer_writes env2 w'')"
      using a by (simp add: consumer_writes_enabled)
    then have "FactoryCall k \<in> set evs3"
      using process_frame_slot(3) [OF pf2, of k] hf d(2) off(2) by simp
    then show "FactoryCall k \<in> set (fst (iteration env2 (w'', v'')))"
      by (simp add: it e2)
  qed
  show ?thesis
    using off one fo pb rn d(1,4) again by blast
qed

lemma raising_factory_pass_value:
  "iteration raising_factory_pass (cam_worker\<lparr>enable_hazmat := True\<rparr>, start_vars) =
     ([ClientRead, FactoryCall Hazmat, Print ''[hazmat] init error: weights file missing'',
       FpsReady (Fin 1), HazmatDet [], QrDet [], FrameReady [10, 20, 30]],
      cam_worker,
      \<lparr>last_frame_time = Fin 1, last_fps_time = Fin 1, frame_count = 0, fps_avg = Fin 1\<rparr>)"
  by (simp add: cam_worker_def start_vars_def raising_factory_pass_def pass_at_def eval_defs)

lemma after_raise_value:
  "loop (cam_worker, \<lparr>last_frame_time = Fin 1, last_fps_time = Fin 1, frame_count = 0, fps_avg = Fin 1\<rparr>)
      [pass_at (9 / 8)] =
     ([(Fin (9 / 8), [ClientRead, HazmatDet [], QrDet [], FrameReady [10, 20, 30]])],
      (cam_worker, \<lparr>last_frame_time = Fin (9 / 8), last_fps_time = Fin 1, frame_count = 1, fps_avg = Fin 1\<rparr>),
      False)"
  by (simp add: cam_worker_def pass_at_def eval_defs)

theorem C5_factory_raises_witness:
  "accepts raising_factory_pass (cam_worker\<lparr>enable_hazmat := True\<rparr>) start_vars [10, 20, 30]
   \<and> enabled Hazmat (consumer_writes raising_factory_pass (cam_worker\<lparr>enable_hazmat := True\<rparr>))
   \<and> \<not> constructed Hazmat (cam_worker\<lparr>enable_hazmat := True\<rparr>)
   \<and> has_factory Hazmat (cam_worker\<lparr>enable_hazmat := True\<rparr>)
   \<and> factory_raises Hazmat raising_factory_pass
   \<and> consumer_write Hazmat (pass_at (9 / 8)) \<noteq> Some True
   \<and> \<not> enabled Hazmat cam_worker
   \<and> findings_of Hazmat
        [ClientRead, FactoryCall Hazmat, Print ''[hazmat] init error: weights file missing'',
         FpsReady (Fin 1), HazmatDet [], QrDet [], FrameReady [10, 20, 30]] = [[]]
   \<and> FactoryCall Hazmat \<notin> set (events_of
        [(Fin (9 / 8), [ClientRead, HazmatDet [], QrDet [], FrameReady [10, 20, 30]])])"
proof -
  have h: "accepts raising_factory_pass (cam_worker\<lparr>enable_hazmat := True\<rparr>) start_vars [10, 20, 30]"
    "enabled Hazmat (consumer_writes raising_factory_pass (cam_worker\<lparr>enable_hazmat := True\<rparr>))"
    "\<not> constructed Hazmat (cam_worker\<lparr>enable_hazmat := True\<rparr>)"
    "has_factory Hazmat (cam_worker\<lparr>enable_hazmat := True\<rparr>)"
    "factory_raises Hazmat raising_factory_pass"
    by (simp_all add: accepts_def py_lt_def rnd_values enabled_def constructed_def
        has_factory_def factory_raises_def
        consumer_writes_def cam_worker_def start_vars_def raising_factory_pass_def pass_at_def
        client_read_def)
  have n: "\<forall>e\<in>set [pass_at (9 / 8)]. consumer_write Hazmat e \<noteq> Some True"
    by (simp add: consumer_write_def pass_at_def)
  note t = C5_factory_raises [OF h raising_factory_pass_value n after_raise_value]
  have "\<not> enabled Hazmat cam_worker"
    "findings_of Hazmat
        [ClientRead, FactoryCall Hazmat, Print ''[hazmat] init error: weights file missing'',
         FpsReady (Fin 1), HazmatDet [], QrDet [], FrameReady [10, 20, 30]] = [[]]"
    "FactoryCall Hazmat \<notin> set (events_of
        [(Fin (9 / 8), [ClientRead, HazmatDet [], QrDet [], FrameReady [10, 20, 30]])])"
    using t by blast+
  then show ?thesis using h n by simp
qed

subsection \<open>A stage without a factory\<close>

lemma accepted_pass_publishes:
  assumes "accepts env w v frame" and "iteration env (w, v) = (evs, w', v')"
  shows "list_ex is_frame_ready evs"
proof -
  from accepted_pass [OF assms] obtain evs0 where
    e: "evs = ClientRead # evs0" and
    pf: "process_frame env (time_now env) frame (consumer_writes env w, v) = (evs0, w', v')"
    by blast
  from process_frame_shape [OF pf] show ?thesis
    by (auto simp: e list_ex_iff)
qed

text \<open>
  C10. Let stage \<open>k\<close> have no factory and no object (as after \<open>__init__\<close> with the factory
  left out). However the consumer sets the flag, over any passes of the loop the worker
  never calls a factory for the stage, never calls its \<open>detect\<close> or \<open>annotate\<close>, and the
  slot stays empty; every pass that publishes a frame publishes one findings list for the
  stage, the empty one. The worker itself never changes the flag: over passes in which the
  consumer does not write it, it keeps its value, so an enabled stage stays enabled. And
  from the state reached after these passes (any number of them, none included), every
  pass that accepts a frame does publish the frame and, for the stage, exactly one
  findings list, the empty one; it calls nothing of the stage and leaves the flag as the
  consumer last wrote it.
\<close>

theorem C10_no_factory:
  assumes "\<not> has_factory k w" and "\<not> constructed k w"
    and "loop (w, v) envs = (tr, (w', v'), b)"
  shows "FactoryCall k \<notin> set (events_of tr) \<and> DetectCall k \<notin> set (events_of tr)
    \<and> AnnotateCall k \<notin> set (events_of tr)
    \<and> \<not> constructed k w'
    \<and> (\<forall>p\<in>set tr. if list_ex is_frame_ready (snd p) then findings_of k (snd p) = [[]]
                    else findings_of k (snd p) = [])
    \<and> ((\<forall>e\<in>set envs. consumer_write k e = None) \<longrightarrow> enabled k w' = enabled k w)
    \<and> (\<forall>env2 frame2 evs2 w2 v2.
          accepts env2 w' v' frame2 \<and> iteration env2 (w', v') = (evs2, w2, v2) \<longrightarrow>
            list_ex is_frame_ready evs2 \<and> findings_of k evs2 = [[]]
            \<and> FactoryCall k \<notin> set evs2 \<and> DetectCall k \<notin> set evs2
            \<and> AnnotateCall k \<notin> set evs2
            \<and> enabled k w2 = enabled k (consumer_writes env2 w'))"
proof -
  note n = loop_no_factory [OF assms(3,1,2)]
  have next_pass: "\<forall>env2 frame2 evs2 w2 v2.
          accepts env2 w' v' frame2 \<and> iteration env2 (w', v') = (evs2, w2, v2) \<longrightarrow>
            list_ex is_frame_ready evs2 \<and> findings_of k evs2 = [[]]
            \<and> FactoryCall k \<notin> set evs2 \<and> DetectCall k \<notin> set evs2
            \<and> AnnotateCall k \<notin> set evs2
            \<and> enabled k w2 = enabled k (consumer_writes env2 w')"
  proof (intro allI impI)
    fix env2 frame2 evs2 w2 v2
    assume a: "accepts env2 w' v' frame2 \<and> iteration env2 (w', v') = (evs2, w2, v2)"
    then have it: "iteration env2 (w', v') = (evs2, w2, v2)" by simp
    have fr: "list_ex is_frame_ready evs2"
      using accepted_pass_publishes [of env2 w' v' frame2 evs2 w2 v2] a by simp
    note s = iteration_slot [OF it, of k]
    have nc: "\<not> constructed k w2"
      using s(3) n(1,2) by blast
    have "findings_of k evs2 = [[]]"
      using s(7) fr nc by auto
    then show "list_ex is_frame_ready evs2 \<and> findings_of k evs2 = [[]]
            \<and> FactoryCall k \<notin> set evs2 \<and> DetectCall k \<notin> set evs2
            \<and> AnnotateCall k \<notin> set evs2
            \<and> enabled k w2 = enabled k (consumer_writes env2 w')"
      using fr s(1,4,5) n(1,2) nc by blast
  qed
  show ?thesis
    using n loop_flag_kept [OF assms(3,1)] next_pass by blast
qed

lemma no_qr_factory_value:
  "loop (cam_worker\<lparr>qr_factory := None, enable_qr := True\<rparr>, start_vars)
      [pass_at 1, pass_at (17 / 16)] =
     ([(Fin 1, [ClientRead, FpsReady (Fin 1), HazmatDet [], QrDet [], FrameReady [10, 20, 30]]),
       (Fin (17 / 16), [Msleep 5])],
      (cam_worker\<lparr>qr_factory := None, enable_qr := True\<rparr>,
       \<lparr>last_frame_time = Fin 1, last_fps_time = Fin 1, frame_count = 0, fps_avg = Fin 1\<rparr>),
      False)"
  by (simp add: cam_worker_def start_vars_def pass_at_def eval_defs)

theorem C10_no_factory_witness:
  "\<not> has_factory Qr (cam_worker\<lparr>qr_factory := None, enable_qr := True\<rparr>)
   \<and> \<not> constructed Qr (cam_worker\<lparr>qr_factory := None, enable_qr := True\<rparr>)
   \<and> consumer_write Qr (pass_at 1) = None \<and> consumer_write Qr (pass_at (17 / 16)) = None
   \<and> enabled Qr (cam_worker\<lparr>qr_factory := None, enable_qr := True\<rparr>)
   \<and> FactoryCall Qr \<notin> set (events_of
        [(Fin 1, [ClientRead, FpsReady (Fin 1), HazmatDet [], QrDet [], FrameReady [10, 20, 30]]),
         (Fin (17 / 16), [Msleep 5])])
   \<and> findings_of Qr [ClientRead, FpsReady (Fin 1), HazmatDet [], QrDet [], FrameReady [10, 20, 30]]
       = [[]]
   \<and> accepts (pass_at (9 / 8)) (cam_worker\<lparr>qr_factory := None, enable_qr := True\<rparr>)
        \<lparr>last_frame_time = Fin 1, last_fps_time = Fin 1, frame_count = 0, fps_avg = Fin 1\<rparr>
        [10, 20, 30]
   \<and> findings_of Qr (fst (iteration (pass_at (9 / 8))
        (cam_worker\<lparr>qr_factory := None, enable_qr := True\<rparr>,
         \<lparr>last_frame_time = Fin 1, last_fps_time = Fin 1, frame_count = 0, fps_avg = Fin 1\<rparr>)))
       = [[]]"
proof -
  have h: "\<not> has_factory Qr (cam_worker\<lparr>qr_factory := None, enable_qr := True\<rparr>)"
    "\<not> constructed Qr (cam_worker\<lparr>qr_factory := None, enable_qr := True\<rparr>)"
    by (simp_all add: has_factory_def constructed_def cam_worker_def)
  have c: "consumer_write Qr (pass_at 1) = None" "consumer_write Qr (pass_at (17 / 16)) = None"
    "enabled Qr (cam_worker\<lparr>qr_factory := None, enable_qr := True\<rparr>)"
    by (simp_all add: consumer_write_def pass_at_def enabled_def)
  note t = C10_no_factory [OF h no_qr_factory_value]
  have "FactoryCall Qr \<notin> set (events_of
        [(Fin 1, [ClientRead, FpsReady (Fin 1), HazmatDet [], QrDet [], FrameReady [10, 20, 30]]),
         (Fin (17 / 16), [Msleep 5])])"
    using t by blast
  moreover have "findings_of Qr
      [ClientRead, FpsReady (Fin 1), HazmatDet [], QrDet [], FrameReady [10, 20, 30]] = [[]]"
    using t by simp
  moreover have a: "accepts (pass_at (9 / 8)) (cam_worker\<lparr>qr_factory := None, enable_qr := True\<rparr>)
        \<lparr>last_frame_time = Fin 1, last_fps_time = Fin 1, frame_count = 0, fps_avg = Fin 1\<rparr>
        [10, 20, 30]"
    by (simp add: accepts_def py_lt_def rnd_values cam_worker_def pass_at_def client_read_def)
  moreover have "findings_of Qr (fst (iteration (pass_at (9 / 8))
        (cam_worker\<lparr>qr_factory := None, enable_qr := True\<rparr>,
         \<lparr>last_frame_time = Fin 1, last_fps_time = Fin 1, frame_count = 0, fps_avg = Fin 1\<rparr>)))
       = [[]]"
  proof -
    obtain evs2 w2 v2 where it: "iteration (pass_at (9 / 8))
        (cam_worker\<lparr>qr_factory := None, enable_qr := True\<rparr>,
         \<lparr>last_frame_time = Fin 1, last_fps_time = Fin 1, frame_count = 0, fps_avg = Fin 1\<rparr>)
        = (evs2, w2, v2)"
      by (cases "iteration (pass_at (9 / 8))
        (cam_worker\<lparr>qr_factory := None, enable_qr := True\<rparr>,
         \<lparr>last_frame_time = Fin 1, last_fps_time = Fin 1, frame_count = 0, fps_avg = Fin 1\<rparr>)")
        auto
    have "findings_of Qr evs2 = [[]]"
      using t a it by blast
    then show ?thesis by (simp add: it)
  qed
  ultimately show ?thesis using h c by simp
qed

subsection \<open>Failures inside a stage\<close>

lemma accepts_same: "accepts env w v f \<Longrightarrow> accepts env w v g \<Longrightarrow> f = g"
  by (simp add: accepts_def)

text \<open>
  C2, as the code has it. Take a pass that accepts a frame, and look at the slots as the
  stage tests of lines 173 and 188 find them (after construction: the object of an earlier
  pass is still there, and the flag of a constructed stage is what the consumer last
  wrote). If the hazmat stage is enabled and constructed and its \<open>detect\<close> or \<open>annotate\<close>
  raises on the frame, the exception is caught: the pass publishes the empty list for
  hazmat, the variable \<open>frame\<close> is not re-bound, so the array that was read goes on to the
  QR stage with whatever the failing calls wrote into it, and the pass publishes what the
  QR stage returns for it. If the QR stage is enabled and constructed and its \<open>detect\<close> or
  \<open>annotate\<close> raises on the frame it is handed, the pass publishes the empty list for QR
  and publishes that same array, with whatever the failing calls wrote into it. A stage
  whose failing calls do not write into the array leaves the frame as it was. Either way
  the pass returns, \<open>_running\<close> is as it was, and the loop goes on with the next pass.
\<close>

theorem C2_stage_failure:
  assumes "accepts env w v frame" and "iteration env (w, v) = (evs, w', v')"
  shows "(enable_hazmat w' \<and> hazmat w' = Some h \<and> hazmat_raises h frame \<longrightarrow>
        findings_of Hazmat evs = [[]]
        \<and> (\<exists>b qz f2 pre. qr_stage (enable_qr w') w' (hazmat_leaves h frame) = (b, f2, qz)
             \<and> evs = pre @ [HazmatDet [], QrDet qz, FrameReady f2])
        \<and> (hazmat_leaves h frame = frame \<longrightarrow>
             (\<exists>b qz f2 pre. qr_stage (enable_qr w') w' frame = (b, f2, qz)
                \<and> evs = pre @ [HazmatDet [], QrDet qz, FrameReady f2])))
    \<and> (enable_qr w' \<and> qr w' = Some q \<and> hazmat_stage (enable_hazmat w') w' frame = (a, f1, hz)
        \<and> qr_raises q f1 \<longrightarrow>
        findings_of Qr evs = [[]]
        \<and> (\<exists>pre. evs = pre @ [HazmatDet hz, QrDet [], FrameReady (qr_leaves q f1)])
        \<and> (qr_leaves q f1 = f1 \<longrightarrow>
             (\<exists>pre. evs = pre @ [HazmatDet hz, QrDet [], FrameReady f1])))
    \<and> (hazmat w \<noteq> None \<longrightarrow> hazmat w' = hazmat w
          \<and> enable_hazmat w' = enable_hazmat (consumer_writes env w))
    \<and> (qr w \<noteq> None \<longrightarrow> qr w' = qr w \<and> enable_qr w' = enable_qr (consumer_writes env w))
    \<and> running w' = running w
    \<and> (\<not> stop_called env \<and> running w \<longrightarrow>
          loop (w, v) (env # envs)
            = ((time_now env, evs) # fst (loop (w', v') envs), snd (loop (w', v') envs)))"
proof -
  from iteration_publishes [OF assms(2)] assms(1) obtain frame' a' b' g1 g2 hz' qz' pre where
    ac: "accepts env w v frame'" and
    e: "evs = pre @ [HazmatDet hz', QrDet qz', FrameReady g2]" and
    hs: "hazmat_stage (enable_hazmat w') w' frame' = (a', g1, hz')" and
    qs: "qr_stage (enable_qr w') w' g1 = (b', g2, qz')"
    by blast
  have fr: "frame' = frame" using accepts_same [OF ac assms(1)] .
  from accepted_pass [OF assms] obtain evs0 where
    e0: "evs = ClientRead # evs0" and
    pf: "process_frame env (time_now env) frame (consumer_writes env w, v) = (evs0, w', v')"
    by blast
  from process_frame_publishes [OF pf] obtain a2 b2 k1 k2 hz2 qz2 where
    fo: "findings_of Hazmat evs0 = [hz2]" "findings_of Qr evs0 = [qz2]" and
    hs2: "hazmat_stage (enable_hazmat w') w' frame = (a2, k1, hz2)" and
    qs2: "qr_stage (enable_qr w') w' k1 = (b2, k2, qz2)"
    by blast
  have same: "hz2 = hz'" "k1 = g1" "qz2 = qz'" "k2 = g2"
    using hs hs2 qs qs2 fr by auto
  have fo': "findings_of Hazmat evs = [hz']" "findings_of Qr evs = [qz']"
    using fo same by (simp_all add: e0)
  have 1: "enable_hazmat w' \<and> hazmat w' = Some h \<and> hazmat_raises h frame \<longrightarrow>
        findings_of Hazmat evs = [[]]
        \<and> (\<exists>b qz f2 pre. qr_stage (enable_qr w') w' (hazmat_leaves h frame) = (b, f2, qz)
             \<and> evs = pre @ [HazmatDet [], QrDet qz, FrameReady f2])
        \<and> (hazmat_leaves h frame = frame \<longrightarrow>
             (\<exists>b qz f2 pre. qr_stage (enable_qr w') w' frame = (b, f2, qz)
                \<and> evs = pre @ [HazmatDet [], QrDet qz, FrameReady f2]))"
  proof
    assume r: "enable_hazmat w' \<and> hazmat w' = Some h \<and> hazmat_raises h frame"
    then have g: "g1 = hazmat_leaves h frame \<and> hz' = []"
      using hazmat_stage_raises [of w' h frame a' g1 hz'] hs fr by simp
    have x: "\<exists>b qz f2 pre. qr_stage (enable_qr w') w' (hazmat_leaves h frame) = (b, f2, qz)
             \<and> evs = pre @ [HazmatDet [], QrDet qz, FrameReady f2]"
      using qs e g by auto
    then have "hazmat_leaves h frame = frame \<longrightarrow>
             (\<exists>b qz f2 pre. qr_stage (enable_qr w') w' frame = (b, f2, qz)
                \<and> evs = pre @ [HazmatDet [], QrDet qz, FrameReady f2])"
      by auto
    then show "findings_of Hazmat evs = [[]]
        \<and> (\<exists>b qz f2 pre. qr_stage (enable_qr w') w' (hazmat_leaves h frame) = (b, f2, qz)
             \<and> evs = pre @ [HazmatDet [], QrDet qz, FrameReady f2])
        \<and> (hazmat_leaves h frame = frame \<longrightarrow>
             (\<exists>b qz f2 pre. qr_stage (enable_qr w') w' frame = (b, f2, qz)
                \<and> evs = pre @ [HazmatDet [], QrDet qz, FrameReady f2]))"
      using x g fo' by auto
  qed
  have 2: "enable_qr w' \<and> qr w' = Some q \<and> hazmat_stage (enable_hazmat w') w' frame = (a, f1, hz)
        \<and> qr_raises q f1 \<longrightarrow>
        findings_of Qr evs = [[]]
        \<and> (\<exists>pre. evs = pre @ [HazmatDet hz, QrDet [], FrameReady (qr_leaves q f1)])
        \<and> (qr_leaves q f1 = f1 \<longrightarrow>
             (\<exists>pre. evs = pre @ [HazmatDet hz, QrDet [], FrameReady f1]))"
  proof
    assume r: "enable_qr w' \<and> qr w' = Some q
        \<and> hazmat_stage (enable_hazmat w') w' frame = (a, f1, hz) \<and> qr_raises q f1"
    then have x: "g1 = f1" "hz' = hz" using hs fr by auto
    then have g: "g2 = qr_leaves q f1 \<and> qz' = []"
      using qr_stage_raises [of w' q f1 b' g2 qz'] qs r by simp
    have y: "\<exists>pre. evs = pre @ [HazmatDet hz, QrDet [], FrameReady (qr_leaves q f1)]"
      using e x g by auto
    then have "qr_leaves q f1 = f1 \<longrightarrow>
             (\<exists>pre. evs = pre @ [HazmatDet hz, QrDet [], FrameReady f1])"
      by auto
    then show "findings_of Qr evs = [[]]
        \<and> (\<exists>pre. evs = pre @ [HazmatDet hz, QrDet [], FrameReady (qr_leaves q f1)])
        \<and> (qr_leaves q f1 = f1 \<longrightarrow>
             (\<exists>pre. evs = pre @ [HazmatDet hz, QrDet [], FrameReady f1]))"
      using y g fo' by auto
  qed
  from process_frame_shape [OF pf] obtain ev1 w1 ev2 where
    ch: "construct_hazmat env (enable_hazmat (consumer_writes env w)) (consumer_writes env w)
          = (ev1, enable_hazmat w1, w1)" and
    cq: "construct_qr env (enable_qr w1) w1 = (ev2, enable_qr w', w')"
    by blast
  have 3: "hazmat w \<noteq> None \<longrightarrow> hazmat w' = hazmat w
          \<and> enable_hazmat w' = enable_hazmat (consumer_writes env w)"
    using construct_hazmat_slot(2,6) [OF ch] construct_qr_fields(6,7) [OF cq] by auto
  have 4: "qr w \<noteq> None \<longrightarrow> qr w' = qr w \<and> enable_qr w' = enable_qr (consumer_writes env w)"
    using construct_hazmat_fields(6,7) [OF ch]
      construct_qr_slot(2,6) [of env w1 ev2 "enable_qr w'" w'] cq by auto
  have 5: "running w' = running w"
    using iteration_fields(3) [OF assms(2)] .
  have 6: "\<not> stop_called env \<and> running w \<longrightarrow>
          loop (w, v) (env # envs)
            = ((time_now env, evs) # fst (loop (w', v') envs), snd (loop (w', v') envs))"
    using assms(2) by (auto split: prod.splits)
  show ?thesis using 1 2 3 4 5 6 by blast
qed

lemma broken_stages_value:
  "iteration (pass_at 1)
      (cam_worker\<lparr>enable_hazmat := True, enable_qr := True, hazmat := Some broken_hazmat,
                  qr := Some broken_qr\<rparr>, start_vars) =
     ([ClientRead, DetectCall Hazmat, Print ''[hazmat] run error: bad input shape'',
       DetectCall Qr, AnnotateCall Qr, Print ''[qr] run error: cannot draw'', FpsReady (Fin 1),
       HazmatDet [], QrDet [], FrameReady [10, 20, 30]],
      cam_worker\<lparr>enable_hazmat := True, enable_qr := True, hazmat := Some broken_hazmat,
                  qr := Some broken_qr\<rparr>,
      \<lparr>last_frame_time = Fin 1, last_fps_time = Fin 1, frame_count = 0, fps_avg = Fin 1\<rparr>)"
  by (simp add: cam_worker_def start_vars_def pass_at_def eval_defs
      broken_hazmat_def broken_qr_def)

theorem C2_stage_failure_witness:
  "accepts (pass_at 1)
      (cam_worker\<lparr>enable_hazmat := True, enable_qr := True, hazmat := Some broken_hazmat,
                  qr := Some broken_qr\<rparr>) start_vars [10, 20, 30]
   \<and> hazmat_raises broken_hazmat [10, 20, 30]
   \<and> qr_raises broken_qr [10, 20, 30]
   \<and> findings_of Hazmat
       [ClientRead, DetectCall Hazmat, Print ''[hazmat] run error: bad input shape'',
        DetectCall Qr, AnnotateCall Qr, Print ''[qr] run error: cannot draw'', FpsReady (Fin 1),
        HazmatDet [], QrDet [], FrameReady [10, 20, 30]] = [[]]
   \<and> findings_of Qr
       [ClientRead, DetectCall Hazmat, Print ''[hazmat] run error: bad input shape'',
        DetectCall Qr, AnnotateCall Qr, Print ''[qr] run error: cannot draw'', FpsReady (Fin 1),
        HazmatDet [], QrDet [], FrameReady [10, 20, 30]] = [[]]"
proof -
  let ?w = "cam_worker\<lparr>enable_hazmat := True, enable_qr := True, hazmat := Some broken_hazmat,
                  qr := Some broken_qr\<rparr>"
  have a: "accepts (pass_at 1) ?w start_vars [10, 20, 30]"
    by (simp add: accepts_def py_lt_def rnd_values cam_worker_def start_vars_def pass_at_def
        client_read_def)
  have r: "hazmat_raises broken_hazmat [10, 20, 30]" "qr_raises broken_qr [10, 20, 30]"
    by (simp_all add: hazmat_raises_def qr_raises_def broken_hazmat_def broken_qr_def)
  have s: "enable_hazmat ?w" "hazmat ?w = Some broken_hazmat"
    "enable_qr ?w" "qr ?w = Some broken_qr"
    by simp_all
  have hs: "hazmat_stage (enable_hazmat ?w) ?w [10, 20, 30] =
      ([DetectCall Hazmat, Print ''[hazmat] run error: bad input shape''], [10, 20, 30], [])"
    by (simp add: hazmat_stage_def broken_hazmat_def)
  note t = C2_stage_failure [OF a broken_stages_value,
      of broken_hazmat broken_qr
         "[DetectCall Hazmat, Print ''[hazmat] run error: bad input shape'']"
         "[10, 20, 30]" "[]" "[]"]
  show ?thesis
    using t a r s hs by blast
qed

text \<open>
  The claim as stated fails for a stage that draws into the array before it raises: with
  a hazmat object whose \<open>annotate\<close> sets the first pixel and then raises, the exception is
  caught and the findings are empty, but the frame that is published is not the frame that
  was read.
\<close>

theorem C2_inplace_counterexample:
  "accepts (pass_at 1) (cam_worker\<lparr>enable_hazmat := True, hazmat := Some scribbling_hazmat\<rparr>)
      start_vars [10, 20, 30]
   \<and> enable_hazmat (cam_worker\<lparr>enable_hazmat := True, hazmat := Some scribbling_hazmat\<rparr>)
   \<and> hazmat_raises scribbling_hazmat [10, 20, 30]
   \<and> fst (iteration (pass_at 1)
        (cam_worker\<lparr>enable_hazmat := True, hazmat := Some scribbling_hazmat\<rparr>, start_vars))
      = [ClientRead, DetectCall Hazmat, AnnotateCall Hazmat,
         Print ''[hazmat] run error: cannot draw'', FpsReady (Fin 1),
         HazmatDet [], QrDet [], FrameReady [99, 20, 30]]"
  by (simp add: accepts_def hazmat_raises_def scribbling_hazmat_def cam_worker_def
      start_vars_def pass_at_def eval_defs)

end
